theory Spec2Isabelle
  imports Complex_Main "HOL-Library.Word"
begin

chapter \<open>Mask R-CNN utilities: box geometry, overlap, suppression, resizing, unmolding\<close>

section \<open>The program\<close>

text \<open>
  A shallow embedding of \<^verbatim>\<open>src/mrcnn/utils/utils.py\<close> and \<^verbatim>\<open>src/nms/pth_nms.py\<close>.

  Conventions of the model.
  \<^item> A Python or tensor float is a \<^typ>\<open>real\<close>: rounding is not modelled. Where the
    source divides by zero or takes the logarithm of a non-positive number, numpy and
    torch raise nothing and store \<open>inf\<close> or \<open>nan\<close>; the model returns
    \<open>Inl NonFinite\<close> there, since a real number cannot carry those values.
  \<^item> Every exception of the source is a value \<open>Inl e\<close> of the result type;
    \<open>LibraryError\<close> stands for an exception raised inside a library call.
  \<^item> A row \<open>(y1, x1, y2, x2)\<close> of a box tensor is a 4-tuple; a tensor \<open>[N, 4]\<close> is a
    list of rows and a tensor \<open>[batch, N, 4]\<close> a list of such lists.
\<close>

subsection \<open>Errors and array helpers\<close>

datatype error =
    NoPositiveAreaError
  | AssertionError string
  | Exception string
  | ZeroDivisionError
  | TypeError
  | ValueError
  | IndexError
  | RuntimeError
  | LibraryError
  | NonFinite

type_synonym 'a box = "'a \<times> 'a \<times> 'a \<times> 'a"

text \<open>The first error of a list of results, or all the values.\<close>

fun collect :: "(error + 'a) list \<Rightarrow> error + 'a list" where
  "collect [] = Inr []"
| "collect (r # rs) =
     (case r of
        Inl e \<Rightarrow> Inl e
      | Inr v \<Rightarrow> (case collect rs of Inl e \<Rightarrow> Inl e | Inr vs \<Rightarrow> Inr (v # vs)))"

text \<open>
  An elementwise binary operation along one dimension, with the broadcasting rule of
  numpy and torch: the two sizes agree, or one of them is 1; anything else is refused.
\<close>

definition broadcast2 ::
  "error \<Rightarrow> ('a \<Rightarrow> 'b \<Rightarrow> error + 'c) \<Rightarrow> 'a list \<Rightarrow> 'b list \<Rightarrow> error + 'c list" where
  "broadcast2 e f xs ys =
     (if length xs = length ys then collect (map2 f xs ys)
      else if length xs = 1 then collect (map (f (hd xs)) ys)
      else if length ys = 1 then collect (map (\<lambda>x. f x (hd ys)) xs)
      else Inl e)"

subsection \<open>Bounding boxes: \<open>apply_box_deltas\<close> and \<open>box_refinement\<close>\<close>

text \<open>One row of \<open>apply_box_deltas\<close>: a box and its delta \<open>(dy, dx, log dh, log dw)\<close>.\<close>

definition apply_box_deltas_row :: "real box \<Rightarrow> real box \<Rightarrow> real box" where
  "apply_box_deltas_row b d =
     (case b of (by1, bx1, by2, bx2) \<Rightarrow>
      case d of (d0, d1, d2, d3) \<Rightarrow>
        let height = by2 - by1;
            width = bx2 - bx1;
            center_y = by1 + 0.5 * height;
            center_x = bx1 + 0.5 * width;
            center_y = center_y + d0 * height;
            center_x = center_x + d1 * width;
            height = height * exp d2;
            width = width * exp d3;
            y1 = center_y - 0.5 * height;
            x1 = center_x - 0.5 * width;
            y2 = y1 + height;
            x2 = x1 + width
        in (y1, x1, y2, x2))"

definition apply_box_deltas ::
  "real box list list \<Rightarrow> real box list list \<Rightarrow> error + real box list list" where
  "apply_box_deltas boxes deltas =
     broadcast2 RuntimeError
       (broadcast2 RuntimeError (\<lambda>b d. Inr (apply_box_deltas_row b d))) boxes deltas"

text \<open>
  One row of \<open>box_refinement\<close>. The quotients by \<open>height\<close> and \<open>width\<close> and the two
  logarithms are finite only for a box of non-zero size and a positive ratio.
\<close>

definition box_refinement_row :: "real box \<Rightarrow> real box \<Rightarrow> error + real box" where
  "box_refinement_row b g =
     (case b of (by1, bx1, by2, bx2) \<Rightarrow>
      case g of (gy1, gx1, gy2, gx2) \<Rightarrow>
        let height = by2 - by1;
            width = bx2 - bx1;
            center_y = by1 + 0.5 * height;
            center_x = bx1 + 0.5 * width;
            gt_height = gy2 - gy1;
            gt_width = gx2 - gx1;
            gt_center_y = gy1 + 0.5 * gt_height;
            gt_center_x = gx1 + 0.5 * gt_width
        in if height = 0 \<or> width = 0 \<or> gt_height / height \<le> 0 \<or> gt_width / width \<le> 0
           then Inl NonFinite
           else
             let dy = (gt_center_y - center_y) / height;
                 dx = (gt_center_x - center_x) / width;
                 dh = ln (gt_height / height);
                 dw = ln (gt_width / width)
             in Inr (dy, dx, dh, dw))"

definition box_refinement :: "real box list \<Rightarrow> real box list \<Rightarrow> error + real box list" where
  "box_refinement box gt_box = broadcast2 RuntimeError box_refinement_row box gt_box"

definition box_height :: "real box \<Rightarrow> real" where
  "box_height b = (case b of (y1, x1, y2, x2) \<Rightarrow> y2 - y1)"

definition box_width :: "real box \<Rightarrow> real" where
  "box_width b = (case b of (y1, x1, y2, x2) \<Rightarrow> x2 - x1)"

subsection \<open>Overlap: \<open>compute_iou\<close>\<close>

text \<open>
  The area of a box as \<open>compute_overlaps\<close> computes it before it calls \<open>compute_iou\<close>:
  \<^verbatim>\<open>(boxes[:, 2] - boxes[:, 0]) * (boxes[:, 3] - boxes[:, 1])\<close>.
\<close>

definition rect_area :: "real box \<Rightarrow> real" where
  "rect_area b = (case b of (y1, x1, y2, x2) \<Rightarrow> (y2 - y1) * (x2 - x1))"

definition intersection_area :: "real box \<Rightarrow> real box \<Rightarrow> real" where
  "intersection_area box b =
     (case box of (by1, bx1, by2, bx2) \<Rightarrow>
      case b of (cy1, cx1, cy2, cx2) \<Rightarrow>
        let y1 = max by1 cy1;
            y2 = min by2 cy2;
            x1 = max bx1 cx1;
            x2 = min bx2 cx2
        in max (x2 - x1) 0 * max (y2 - y1) 0)"

text \<open>
  \<open>compute_iou box boxes box_area boxes_area\<close>: one overlap per row of \<open>boxes\<close>. The
  areas and the intersections are combined elementwise (numpy broadcasts them and raises
  ValueError on sizes that do not fit); a zero union gives \<open>inf\<close> or \<open>nan\<close>.
\<close>

definition compute_iou ::
  "real box \<Rightarrow> real box list \<Rightarrow> real \<Rightarrow> real list \<Rightarrow> error + real list" where
  "compute_iou box boxes box_area boxes_area =
     (let intersection = map (intersection_area box) boxes
      in broadcast2 ValueError
           (\<lambda>area inter.
              let union = box_area + area - inter
              in if union = 0 then Inl NonFinite else Inr (inter / union))
           boxes_area intersection)"

text \<open>Two boxes overlap when their intersection has an interior.\<close>

definition boxes_overlap :: "real box \<Rightarrow> real box \<Rightarrow> bool" where
  "boxes_overlap a b =
     (case a of (ay1, ax1, ay2, ax2) \<Rightarrow>
      case b of (by1, bx1, by2, bx2) \<Rightarrow>
        max ay1 by1 < min ay2 by2 \<and> max ax1 bx1 < min ax2 bx2)"

text \<open>The box invariant of the data model: \<open>y2 \<ge> y1\<close> and \<open>x2 \<ge> x1\<close>.\<close>

definition box_invariant :: "real box \<Rightarrow> bool" where
  "box_invariant b = (case b of (y1, x1, y2, x2) \<Rightarrow> y1 \<le> y2 \<and> x1 \<le> x2)"

subsection \<open>Canvas to image coordinates: \<open>to_img_domain\<close>\<close>

definition box_sub :: "real box \<Rightarrow> real box \<Rightarrow> real box" where
  "box_sub a b =
     (case a of (a0, a1, a2, a3) \<Rightarrow> case b of (b0, b1, b2, b3) \<Rightarrow>
        (a0 - b0, a1 - b1, a2 - b2, a3 - b3))"

definition box_mul :: "real box \<Rightarrow> real box \<Rightarrow> real box" where
  "box_mul a b =
     (case a of (a0, a1, a2, a3) \<Rightarrow> case b of (b0, b1, b2, b3) \<Rightarrow>
        (a0 * b0, a1 * b1, a2 * b2, a3 * b3))"

text \<open>
  \<open>to_img_domain boxes window image_shape\<close>. A window of zero height or width makes a
  scale \<open>inf\<close> or \<open>nan\<close>, and with it every row of the result.
\<close>

definition to_img_domain ::
  "real box list \<Rightarrow> real box \<Rightarrow> int \<times> int \<times> int \<Rightarrow> error + real box list" where
  "to_img_domain boxes window image_shape =
     (case window of (w0, w1, w2, w3) \<Rightarrow>
      case image_shape of (image_h, image_w, depth) \<Rightarrow>
        if boxes \<noteq> [] \<and> (w2 - w0 = 0 \<or> w3 - w1 = 0) then Inl NonFinite
        else
          let h_scale = real_of_int image_h / (w2 - w0);
              w_scale = real_of_int image_w / (w3 - w1);
              scales = (h_scale, w_scale, h_scale, w_scale);
              shifts = (w0, w1, w0, w1)
          in Inr (map (\<lambda>b. box_mul (box_sub b shifts) scales) boxes))"

subsection \<open>Masks to boxes: \<open>extract_bboxes\<close>\<close>

text \<open>
  A mask array \<open>[height, width, num_instances]\<close>: its shape and its entries. An entry
  counts as set when it is not zero, as \<open>np.any\<close> reads it.
\<close>

record mask_array =
  height :: nat
  width :: nat
  num_instances :: nat
  pixel :: "nat \<Rightarrow> nat \<Rightarrow> nat \<Rightarrow> int"

text \<open>\<^verbatim>\<open>np.where(np.any(m, axis=0))[0]\<close>: the columns of channel \<open>i\<close> with a set pixel.\<close>

definition horizontal_indicies :: "mask_array \<Rightarrow> nat \<Rightarrow> nat list" where
  "horizontal_indicies msk i =
     filter (\<lambda>x. list_ex (\<lambda>y. pixel msk y x i \<noteq> 0) [0..<height msk]) [0..<width msk]"

text \<open>\<^verbatim>\<open>np.where(np.any(m, axis=1))[0]\<close>: the rows of channel \<open>i\<close> with a set pixel.\<close>

definition vertical_indicies :: "mask_array \<Rightarrow> nat \<Rightarrow> nat list" where
  "vertical_indicies msk i =
     filter (\<lambda>y. list_ex (\<lambda>x. pixel msk y x i \<noteq> 0) [0..<width msk]) [0..<height msk]"

text \<open>
  The body of the loop of \<open>extract_bboxes\<close>. Indexing \<open>vertical_indicies[[0, -1]]\<close>
  raises IndexError on an empty array.
\<close>

definition extract_bbox :: "mask_array \<Rightarrow> nat \<Rightarrow> error + int box" where
  "extract_bbox msk i =
     (let hs = horizontal_indicies msk i;
          vs = vertical_indicies msk i
      in if hs \<noteq> [] then
           (if vs = [] then Inl IndexError
            else
              let x1 = int (hd hs); x2 = int (last hs);
                  y1 = int (hd vs); y2 = int (last vs);
                  x2 = x2 + 1;
                  y2 = y2 + 1
              in Inr (y1, x1, y2, x2))
         else Inr (0, 0, 0, 0))"

definition extract_bboxes :: "mask_array \<Rightarrow> error + int box list" where
  "extract_bboxes msk = collect (map (extract_bbox msk) [0..<num_instances msk])"

subsection \<open>Image metadata: \<open>compose_image_meta\<close> and \<open>parse_image_meta\<close>\<close>

text \<open>
  A numpy array of one dimension, or of two: \<open>Array2 n rows\<close> has rows of \<open>n\<close> columns.
  The entries keep their values (numpy's conversion to a common element type is not
  modelled).
\<close>

datatype 'a ndarray = Array1 "'a list" | Array2 nat "'a list list"

text \<open>The record that \<open>compose_image_meta\<close> returns is the data of an array of one dimension.\<close>

definition compose_image_meta :: "'a \<Rightarrow> 'a list \<Rightarrow> 'a list \<Rightarrow> 'a list \<Rightarrow> 'a list" where
  "compose_image_meta image_id image_shape window active_class_ids =
     [image_id] @ image_shape @ window @ active_class_ids"

text \<open>
  \<open>parse_image_meta\<close> indexes its argument with two indices, \<^verbatim>\<open>meta[:, 0]\<close>: a batch of
  records. Numpy raises IndexError when the array has one dimension, or no column 0;
  the three slices never raise.
\<close>

definition parse_image_meta ::
  "'a ndarray \<Rightarrow> error + ('a list \<times> 'a list list \<times> 'a list list \<times> 'a list list)" where
  "parse_image_meta meta =
     (case meta of
        Array1 xs \<Rightarrow> Inl IndexError
      | Array2 n rows \<Rightarrow>
          if n = 0 then Inl IndexError
          else
            let image_id = map hd rows;
                image_shape = map (\<lambda>r. take 3 (drop 1 r)) rows;
                window = map (\<lambda>r. take 4 (drop 4 r)) rows;
                active_class_ids = map (drop 8) rows
            in Inr (image_id, image_shape, window, active_class_ids))"

text \<open>
  \<open>np.stack\<close> of arrays of one dimension (each given by its data), as \<open>mold_inputs\<close> stacks the records of a
  batch: ValueError for no array at all and for arrays of different lengths.
\<close>

definition np_stack :: "'a list list \<Rightarrow> error + 'a ndarray" where
  "np_stack arrays =
     (case arrays of
        [] \<Rightarrow> Inl ValueError
      | a # as \<Rightarrow>
          if list_all (\<lambda>b. length b = length a) as then Inr (Array2 (length a) arrays)
          else Inl ValueError)"

subsection \<open>Resizing: \<open>resize_image\<close>\<close>

text \<open>
  Python's \<open>round\<close> of a float: to the nearest integer, a half to the even neighbour.
\<close>

definition py_round :: "real \<Rightarrow> int" where
  "py_round x =
     (let f = \<lfloor>x\<rfloor>; d = x - of_int f
      in if d < 1 / 2 then f
         else if 1 / 2 < d then f + 1
         else if even f then f else f + 1)"

text \<open>
  What \<open>resize_image\<close> takes from outside the repository.
  \<^item> \<open>skimage.transform.resize\<close>: the model knows only which calls it accepts (the shape
    of the image and the requested shape), and that an accepted call returns an array
    of the requested shape; a call it refuses raises inside the library.
  \<^item> \<open>random.randint\<close>: the two draws of the \<open>crop\<close> mode, as functions of the bounds.

  An image is its shape \<open>(height, width)\<close>: the pixel values come from the library's
  interpolation and no statement here depends on them.
\<close>

record externals =
  resize_accepts :: "nat \<times> nat \<Rightarrow> int \<times> int \<Rightarrow> bool"
  randint_y :: "int \<Rightarrow> int \<Rightarrow> int"
  randint_x :: "int \<Rightarrow> int \<Rightarrow> int"

type_synonym padding = "(int \<times> int) \<times> (int \<times> int) \<times> (int \<times> int)"

type_synonym resized = "(int \<times> int) \<times> int box \<times> real \<times> padding \<times> int box option"

definition and_then :: "error + 'a \<Rightarrow> ('a \<Rightarrow> error + 'b) \<Rightarrow> error + 'b" where
  "and_then r f = (case r of Inl e \<Rightarrow> Inl e | Inr v \<Rightarrow> f v)"

text \<open>
  \<^verbatim>\<open>if min_dim and mode != "pad64": scale = max(1, min_dim / min(h, w))\<close>, from the
  default \<open>scale = 1\<close>. \<open>None\<close> and 0 are false.
\<close>

definition scale_min_dim :: "int option \<Rightarrow> string \<Rightarrow> int \<Rightarrow> int \<Rightarrow> error + real" where
  "scale_min_dim min_dim mode h w =
     (case min_dim of
        None \<Rightarrow> Inr 1
      | Some m \<Rightarrow>
          if m \<noteq> 0 \<and> mode \<noteq> ''pad64'' then
            (if min h w = 0 then Inl ZeroDivisionError
             else Inr (max 1 (real_of_int m / real_of_int (min h w))))
          else Inr 1)"

text \<open>\<^verbatim>\<open>if min_scale: scale = max(scale, min_scale)\<close>\<close>

definition scale_min_scale :: "real option \<Rightarrow> real \<Rightarrow> real" where
  "scale_min_scale min_scale scale =
     (case min_scale of
        None \<Rightarrow> scale
      | Some s \<Rightarrow> if s \<noteq> 0 then max scale s else scale)"

text \<open>\<^verbatim>\<open>if mode == "pad64": scale = min_dim/max(h, w)\<close>\<close>

definition scale_pad64 :: "int option \<Rightarrow> string \<Rightarrow> int \<Rightarrow> int \<Rightarrow> real \<Rightarrow> error + real" where
  "scale_pad64 min_dim mode h w scale =
     (if mode = ''pad64'' then
        (case min_dim of
           None \<Rightarrow> Inl TypeError
         | Some m \<Rightarrow>
             if max h w = 0 then Inl ZeroDivisionError
             else Inr (real_of_int m / real_of_int (max h w)))
      else Inr scale)"

text \<open>
  \<^verbatim>\<open>if max_dim and mode == "square":\<close> the scale is cut when the longer side would
  pass \<open>max_dim\<close>.
\<close>

definition scale_max_dim :: "int option \<Rightarrow> string \<Rightarrow> int \<Rightarrow> int \<Rightarrow> real \<Rightarrow> error + real" where
  "scale_max_dim max_dim mode h w scale =
     (case max_dim of
        None \<Rightarrow> Inr scale
      | Some M \<Rightarrow>
          if M \<noteq> 0 \<and> mode = ''square'' then
            (let image_max = max h w
             in if py_round (real_of_int image_max * scale) > M then
                  (if image_max = 0 then Inl ZeroDivisionError
                   else Inr (real_of_int M / real_of_int image_max))
                else Inr scale)
          else Inr scale)"

text \<open>
  \<^verbatim>\<open>if scale != 1: image = skimage.transform.resize(image, (round(h * scale), round(w * scale)), ...)\<close>
  and then \<^verbatim>\<open>h, w = image.shape[:2]\<close>.
\<close>

definition skimage_resize :: "externals \<Rightarrow> nat \<times> nat \<Rightarrow> real \<Rightarrow> error + int \<times> int" where
  "skimage_resize ext img scale =
     (case img of (ih, iw) \<Rightarrow>
        if scale \<noteq> 1 then
          (let out = (py_round (real ih * scale), py_round (real iw * scale))
           in if fst out < 0 \<or> snd out < 0 \<or> \<not> resize_accepts ext img out
              then Inl LibraryError
              else Inr out)
        else Inr (int ih, int iw))"

text \<open>\<open>np.pad\<close> on the two image axes: a negative pad width is a ValueError.\<close>

definition np_pad :: "int \<times> int \<Rightarrow> padding \<Rightarrow> error + int \<times> int" where
  "np_pad shape padding =
     (case shape of (h, w) \<Rightarrow>
      case padding of ((top_pad, bottom_pad), (left_pad, right_pad), (c0, c1)) \<Rightarrow>
        if top_pad < 0 \<or> bottom_pad < 0 \<or> left_pad < 0 \<or> right_pad < 0 \<or> c0 < 0 \<or> c1 < 0
        then Inl ValueError
        else Inr (h + top_pad + bottom_pad, w + left_pad + right_pad))"

text \<open>The number of indices that the slice \<open>[start:stop]\<close> selects on an axis of size \<open>n\<close>.\<close>

definition slice_length :: "int \<Rightarrow> int \<Rightarrow> int \<Rightarrow> int" where
  "slice_length n start stop =
     (let a = (if start < 0 then max 0 (start + n) else min start n);
          b = (if stop < 0 then max 0 (stop + n) else min stop n)
      in max 0 (b - a))"

text \<open>The padding branch of the \<open>square\<close> mode.\<close>

definition pad_square :: "int option \<Rightarrow> int \<Rightarrow> int \<Rightarrow> real \<Rightarrow> error + resized" where
  "pad_square max_dim h w scale =
     (case max_dim of
        None \<Rightarrow> Inl TypeError
      | Some M \<Rightarrow>
          let top_pad = (M - h) div 2;
              bottom_pad = M - h - top_pad;
              left_pad = (M - w) div 2;
              right_pad = M - w - left_pad;
              padding = ((top_pad, bottom_pad), (left_pad, right_pad), (0, 0))
          in and_then (np_pad (h, w) padding) (\<lambda>img.
               let window = (top_pad, left_pad, h + top_pad, w + left_pad)
               in Inr (img, window, scale, padding, None)))"

text \<open>
  The padding branch of the \<open>pad64\<close> mode. \<open>min_dim\<close> is an integer when this branch is
  reached; \<open>max_dim\<close> may still be \<open>None\<close>, which differs from every width and cannot be
  subtracted from.
\<close>

definition pad_pad64 :: "int \<Rightarrow> int option \<Rightarrow> int \<Rightarrow> int \<Rightarrow> real \<Rightarrow> error + resized" where
  "pad_pad64 min_dim max_dim h w scale =
     (if min_dim mod 64 \<noteq> 0
      then Inl (AssertionError ''Minimum dimension must be a multiple of 64'')
      else
        let (top_pad, bottom_pad) =
              (if min_dim \<noteq> h then
                 (let max_h = min_dim; top_pad = (max_h - h) div 2
                  in (top_pad, max_h - h - top_pad))
               else (0, 0))
        in case max_dim of
             None \<Rightarrow> Inl TypeError
           | Some M \<Rightarrow>
               let (left_pad, right_pad) =
                     (if M \<noteq> w then
                        (let max_w = M; left_pad = (max_w - w) div 2
                         in (left_pad, max_w - w - left_pad))
                      else (0, 0));
                   padding = ((top_pad, bottom_pad), (left_pad, right_pad), (0, 0))
               in and_then (np_pad (h, w) padding) (\<lambda>img.
                    let window = (top_pad, left_pad, h + top_pad, w + left_pad)
                    in Inr (img, window, scale, padding, None)))"

text \<open>
  The \<open>crop\<close> branch: \<open>random.randint(0, n)\<close> raises ValueError for a negative \<open>n\<close>, and
  \<open>h - min_dim\<close> a TypeError when \<open>min_dim\<close> is \<open>None\<close>.
\<close>

definition crop_random :: "externals \<Rightarrow> int option \<Rightarrow> int \<Rightarrow> int \<Rightarrow> real \<Rightarrow> error + resized" where
  "crop_random ext min_dim h w scale =
     (case min_dim of
        None \<Rightarrow> Inl TypeError
      | Some m \<Rightarrow>
          if h - m < 0 then Inl ValueError
          else
            let y = randint_y ext 0 (h - m)
            in if w - m < 0 then Inl ValueError
               else
                 let x = randint_x ext 0 (w - m);
                     crop = (y, x, m, m);
                     img = (slice_length h y (y + m), slice_length w x (x + m));
                     window = (0, 0, m, m)
                 in Inr (img, window, scale, ((0, 0), (0, 0), (0, 0)), Some crop))"

definition resize_image ::
  "externals \<Rightarrow> nat \<times> nat \<Rightarrow> int option \<Rightarrow> int option \<Rightarrow> real option \<Rightarrow> string
     \<Rightarrow> error + resized" where
  "resize_image ext img min_dim max_dim min_scale mode =
     (case img of (ih, iw) \<Rightarrow>
        let h = int ih; w = int iw;
            window = (0, 0, h, w);
            padding = ((0, 0), (0, 0), (0, 0))
        in if mode = ''none'' then Inr ((h, w), window, 1, padding, None)
           else
             and_then (scale_min_dim min_dim mode h w) (\<lambda>scale.
             let scale = scale_min_scale min_scale scale in
             and_then (scale_pad64 min_dim mode h w scale) (\<lambda>scale.
             and_then (scale_max_dim max_dim mode h w scale) (\<lambda>scale.
             and_then (skimage_resize ext img scale) (\<lambda>(h, w).
               if mode = ''square'' then pad_square max_dim h w scale
               else if mode = ''pad64'' then
                 (case min_dim of
                    None \<Rightarrow> Inl TypeError
                  | Some m \<Rightarrow> pad_pad64 m max_dim h w scale)
               else if mode = ''crop'' then crop_random ext min_dim h w scale
               else Inl (Exception (''Mode '' @ mode @ '' not supported'')))))))"

subsection \<open>Unmolding: \<open>remove_zero_area\<close>, \<open>unmold_boxes\<close>, \<open>unmold_detections\<close>\<close>

text \<open>
  An \<open>int32\<close> tensor entry is a 32-bit word read as two's complement: differences and
  products wrap around. \<^verbatim>\<open>.to(torch.int32)\<close> truncates a float towards zero; for a
  value outside the 32-bit range the conversion gives the smallest \<open>int32\<close>,
  \<open>-2147483648\<close>.
  \<^verbatim>\<open>.to(torch.long)\<close> truncates as well; class ids are modelled as unbounded integers.
\<close>

type_synonym int32 = "32 word"

definition trunc :: "real \<Rightarrow> int" where
  "trunc x = (if 0 \<le> x then \<lfloor>x\<rfloor> else \<lceil>x\<rceil>)"

definition to_int32 :: "real \<Rightarrow> int32" where
  "to_int32 x =
     (let t = trunc x
      in if - (2 ^ 31) \<le> t \<and> t < 2 ^ 31 then word_of_int t else word_of_int (- (2 ^ 31)))"

definition to_int32_box :: "real box \<Rightarrow> int32 box" where
  "to_int32_box b = (case b of (y1, x1, y2, x2) \<Rightarrow> (to_int32 y1, to_int32 x1, to_int32 y2, to_int32 x2))"

text \<open>
  \<open>skip = too_small + too_short + too_thin\<close> for one row: the sum of three 0/1 flags.
  The source calls \<open>dx\<close> the difference of the two \<open>y\<close> columns and \<open>dy\<close> that of the
  two \<open>x\<close> columns.
\<close>

definition skip :: "int32 box \<Rightarrow> nat" where
  "skip b =
     (case b of (b0, b1, b2, b3) \<Rightarrow>
        let dx = b2 - b0; dy = b3 - b1;
            too_small = (sint (dx * dy) \<le> 0);
            too_short = (sint dx \<le> 2);
            too_thin = (sint dy \<le> 2)
        in of_bool too_small + of_bool too_short + of_bool too_thin)"

text \<open>\<^verbatim>\<open>torch.nonzero(skip == 0)\<close>: the indices of the rows to keep, in order.\<close>

definition positive_area :: "int32 box list \<Rightarrow> nat list" where
  "positive_area boxes = filter (\<lambda>i. skip (boxes ! i) = 0) [0..<length boxes]"

text \<open>Indexing a tensor with a tensor of indices, \<^verbatim>\<open>xs[keep_ix]\<close>.\<close>

definition gather :: "'a list \<Rightarrow> nat list \<Rightarrow> error + 'a list" where
  "gather xs ix = collect (map (\<lambda>i. if i < length xs then Inr (xs ! i) else Inl IndexError) ix)"

definition remove_zero_area ::
  "int32 box list \<Rightarrow> 'c list \<Rightarrow> 'm list \<Rightarrow> 's list option
     \<Rightarrow> error + (int32 box list \<times> 'c list \<times> 'm list \<times> 's list option)" where
  "remove_zero_area boxes class_ids masks scores =
     (let keep_ix = positive_area boxes
      in if keep_ix = [] then Inl NoPositiveAreaError
         else if length keep_ix \<noteq> length boxes then
           and_then (gather boxes keep_ix) (\<lambda>boxes'.
           and_then (gather class_ids keep_ix) (\<lambda>class_ids'.
           and_then (case scores of
                       None \<Rightarrow> Inr None
                     | Some s \<Rightarrow> and_then (gather s keep_ix) (\<lambda>s'. Inr (Some s'))) (\<lambda>scores'.
           and_then (gather masks keep_ix) (\<lambda>masks'.
             Inr (boxes', class_ids', masks', scores')))))
         else Inr (boxes, class_ids, masks, scores))"

text \<open>
  \<open>unmold_mask\<close> is made of torch calls on the pixel data (\<open>F.upsample\<close>, \<open>torch.where\<close>,
  the assignment to a slice of the canvas). The model takes it as a parameter: the full
  mask it returns for a small mask, a box and an image shape, or \<open>None\<close> when one of
  those calls raises.
\<close>

type_synonym ('m, 'f) unmolder = "'m \<Rightarrow> int32 box \<Rightarrow> int \<times> int \<Rightarrow> 'f option"

definition unmold_masks ::
  "('m, 'f) unmolder \<Rightarrow> 'm list \<Rightarrow> int32 box list \<Rightarrow> int \<times> int \<Rightarrow> error + 'f list" where
  "unmold_masks unmold_mask masks boxes image_shape =
     collect (map (\<lambda>i. if i < length boxes then
                          (case unmold_mask (masks ! i) (boxes ! i) image_shape of
                             None \<Rightarrow> Inl LibraryError
                           | Some full_mask \<Rightarrow> Inr full_mask)
                        else Inl IndexError)
                [0..<length masks])"

definition unmold_boxes ::
  "('m, 'f) unmolder \<Rightarrow> real box list \<Rightarrow> int list \<Rightarrow> 'm list \<Rightarrow> int \<times> int \<times> int \<Rightarrow> real box
     \<Rightarrow> real list option \<Rightarrow> error + (int32 box list \<times> int list \<times> real list option \<times> 'f list)" where
  "unmold_boxes unmold_mask boxes class_ids masks image_shape window scores =
     (let image_shape2 = (fst image_shape, fst (snd image_shape))
      in and_then (to_img_domain boxes window image_shape) (\<lambda>boxes.
         let boxes = map to_int32_box boxes
         in and_then (remove_zero_area boxes class_ids masks scores) (\<lambda>(boxes, class_ids, masks, scores).
            and_then (unmold_masks unmold_mask masks boxes image_shape2) (\<lambda>full_masks.
              Inr (boxes, class_ids, scores, full_masks)))))"

text \<open>
  A row of \<open>detections\<close> is \<open>(y1, x1, y2, x2, class_id, score)\<close>. \<open>mrcnn_mask\<close> holds, for
  every detection, one small mask per class;
  \<^verbatim>\<open>mrcnn_mask[torch.arange(N), :, :, class_ids]\<close> picks for detection \<open>i\<close> the mask of
  class \<open>class_ids[i]\<close> (a negative index counts from the end) and raises IndexError
  out of range.
\<close>

type_synonym detection = "real \<times> real \<times> real \<times> real \<times> real \<times> real"

definition detection_box :: "detection \<Rightarrow> real box" where
  "detection_box d = (case d of (y1, x1, y2, x2, class_id, score) \<Rightarrow> (y1, x1, y2, x2))"

definition detection_class_id :: "detection \<Rightarrow> int" where
  "detection_class_id d = (case d of (y1, x1, y2, x2, class_id, score) \<Rightarrow> trunc class_id)"

definition detection_score :: "detection \<Rightarrow> real" where
  "detection_score d = (case d of (y1, x1, y2, x2, class_id, score) \<Rightarrow> score)"

definition select_masks :: "'m list list \<Rightarrow> int list \<Rightarrow> error + 'm list" where
  "select_masks mrcnn_mask class_ids =
     collect (map (\<lambda>i. if i < length mrcnn_mask then
                          (let per_class = mrcnn_mask ! i;
                               n = int (length per_class);
                               c = class_ids ! i
                           in if - n \<le> c \<and> c < n
                              then Inr (per_class ! nat (if c < 0 then c + n else c))
                              else Inl IndexError)
                        else Inl IndexError)
                [0..<length class_ids])"

definition unmold_detections ::
  "('m, 'f) unmolder \<Rightarrow> detection list \<Rightarrow> 'm list list \<Rightarrow> int \<times> int \<times> int \<Rightarrow> real box
     \<Rightarrow> error + (int32 box list \<times> int list \<times> real list option \<times> 'f list)" where
  "unmold_detections unmold_mask detections mrcnn_mask image_shape window =
     (let boxes = map detection_box detections;
          class_ids = map detection_class_id detections;
          scores = map detection_score detections
      in and_then (select_masks mrcnn_mask class_ids) (\<lambda>masks.
           unmold_boxes unmold_mask boxes class_ids masks image_shape window (Some scores)))"

subsection \<open>Suppression: \<open>pth_nms\<close>\<close>

text \<open>
  A row of \<open>dets\<close> is \<open>(y1, x1, y2, x2, score)\<close>. A row of boxes given to a kernel keeps
  its five columns, in the order the caller put them.
\<close>

type_synonym det = "real \<times> real \<times> real \<times> real \<times> real"

definition det_score :: "det \<Rightarrow> real" where
  "det_score d = (case d of (c0, c1, c2, c3, c4) \<Rightarrow> c4)"

text \<open>\<^verbatim>\<open>areas = (x2 - x1 + 1) * (y2 - y1 + 1)\<close> with \<open>x1, y1, x2, y2\<close> the columns 1, 0, 3, 2.\<close>

definition det_area :: "det \<Rightarrow> real" where
  "det_area d =
     (case d of (c0, c1, c2, c3, c4) \<Rightarrow>
        let x1 = c1; y1 = c0; x2 = c3; y2 = c2
        in (x2 - x1 + 1) * (y2 - y1 + 1))"

text \<open>
  \<^verbatim>\<open>scores.sort(0, descending=True)[1]\<close>: the indices by descending score. Torch leaves
  the order of equal scores open; the model keeps the smaller index first.
\<close>

fun insert_by_score :: "real list \<Rightarrow> nat \<Rightarrow> nat list \<Rightarrow> nat list" where
  "insert_by_score scores i [] = [i]"
| "insert_by_score scores i (j # js) =
     (if scores ! j < scores ! i then i # j # js else j # insert_by_score scores i js)"

definition argsort_descending :: "real list \<Rightarrow> nat list" where
  "argsort_descending scores =
     foldl (\<lambda>sorted i. insert_by_score scores i sorted) [] [0..<length scores]"

text \<open>
  Modelled from the spec: the greedy suppression that both native kernels
  (\<open>nms.cpu_nms\<close> and \<open>nms.gpu_nms\<close> of the extension module \<open>._ext\<close>, which is not
  among the sources) carry out. Take the first remaining index, keep it, remove the
  remaining indices whose box overlaps its box by more than the threshold, and repeat
  until none remains.
\<close>

function greedy_suppression :: "(nat \<Rightarrow> nat \<Rightarrow> bool) \<Rightarrow> nat list \<Rightarrow> nat list" where
  "greedy_suppression suppresses [] = []"
| "greedy_suppression suppresses (i # remaining) =
     i # greedy_suppression suppresses (filter (\<lambda>j. \<not> suppresses i j) remaining)"
  by pat_completeness auto
termination
  by (relation "measure (\<lambda>(suppresses, remaining). length remaining)")
    (simp_all add: less_Suc_eq_le)

text \<open>
  Modelled from the spec: the overlap of two boxes under the inclusive-extent
  convention of the area, \<open>(x2 - x1 + 1) * (y2 - y1 + 1)\<close>, from the four coordinate
  columns of the two rows and their areas. The two axes enter alike, so the value is
  the same for the \<open>(y1, x1, y2, x2)\<close> and the \<open>(x1, y1, x2, y2)\<close> layout.
\<close>

definition inclusive_intersection :: "det \<Rightarrow> det \<Rightarrow> real" where
  "inclusive_intersection a b =
     (case a of (a0, a1, a2, a3, a4) \<Rightarrow>
      case b of (b0, b1, b2, b3, b4) \<Rightarrow>
        max 0 (min a2 b2 - max a0 b0 + 1) * max 0 (min a3 b3 - max a1 b1 + 1))"

text \<open>
  Modelled from the spec: a box is removed when its IoU with the kept box exceeds the
  threshold. For a zero union the float quotient is \<open>inf\<close> (above every threshold) when
  the intersection is positive and \<open>nan\<close> (above none) otherwise.
\<close>

definition iou_exceeds :: "real \<Rightarrow> real \<Rightarrow> real \<Rightarrow> real \<Rightarrow> bool" where
  "iou_exceeds intersection area_a area_b thresh =
     (let union = area_a + area_b - intersection
      in if union = 0 then 0 < intersection else thresh < intersection / union)"

text \<open>
  Modelled from the spec: \<open>nms.cpu_nms(keep, num_out, dets, order, areas, thresh)\<close>, the
  sequential strategy. It visits the rows of \<open>dets\<close> in the given \<open>order\<close>, with the
  given \<open>areas\<close>, and writes the kept indices of \<open>dets\<close>; the model returns
  \<open>keep[:num_out]\<close>.
\<close>

definition cpu_nms :: "det list \<Rightarrow> nat list \<Rightarrow> real list \<Rightarrow> real \<Rightarrow> nat list" where
  "cpu_nms dets order areas thresh =
     greedy_suppression
       (\<lambda>i j. iou_exceeds (inclusive_intersection (dets ! i) (dets ! j)) (areas ! i) (areas ! j) thresh)
       order"

text \<open>
  Modelled from the spec: \<open>nms.gpu_nms(keep, num_out, boxes, thresh)\<close>, the accelerated
  strategy. It takes rows \<open>(x1, y1, x2, y2, score)\<close> that the caller has sorted by
  descending score, visits them in the order of their rows, computes the areas
  itself, and writes the kept row numbers; the model returns \<open>keep[:num_out]\<close>.
\<close>

definition gpu_box_area :: "det \<Rightarrow> real" where
  "gpu_box_area b = (case b of (x1, y1, x2, y2, score) \<Rightarrow> (x2 - x1 + 1) * (y2 - y1 + 1))"

definition gpu_nms :: "det list \<Rightarrow> real \<Rightarrow> nat list" where
  "gpu_nms boxes thresh =
     greedy_suppression
       (\<lambda>i j. iou_exceeds (inclusive_intersection (boxes ! i) (boxes ! j))
                 (gpu_box_area (boxes ! i)) (gpu_box_area (boxes ! j)) thresh)
       [0..<length boxes]"

text \<open>\<^verbatim>\<open>dets[:, [1, 0, 3, 2, 4]]\<close>: the columns of a row, reordered.\<close>

definition swap_axes :: "det \<Rightarrow> det" where
  "swap_axes d = (case d of (c0, c1, c2, c3, c4) \<Rightarrow> (c1, c0, c3, c2, c4))"

text \<open>
  \<open>pth_nms dets thresh\<close>, with the residency of the tensor (\<open>dets.is_cuda\<close>) as an
  argument. On the accelerated path \<open>dets_temp\<close> is built from \<open>dets\<close> before \<open>dets\<close>
  is rebound to its rows in score order; the kernel is given \<open>dets_temp\<close>, and the
  sorted \<open>dets\<close> is not used again.
\<close>

definition pth_nms :: "bool \<Rightarrow> det list \<Rightarrow> real \<Rightarrow> nat list" where
  "pth_nms is_cuda dets thresh =
     (let scores = map det_score dets;
          areas = map det_area dets;
          order = argsort_descending scores
      in if \<not> is_cuda then
           (let keep = cpu_nms dets order areas thresh
            in keep)
         else
           (let dets_temp = map swap_axes dets;
                dets = map (\<lambda>i. dets ! i) order;
                keep = gpu_nms dets_temp thresh
            in map (\<lambda>k. order ! k) keep))"

subsection \<open>Vocabulary of the statements\<close>

text \<open>Pixel \<open>(y, x)\<close> of channel \<open>i\<close> lies in the array and is set.\<close>

definition channel_set :: "mask_array \<Rightarrow> nat \<Rightarrow> nat \<Rightarrow> nat \<Rightarrow> bool" where
  "channel_set msk i y x = (y < height msk \<and> x < width msk \<and> pixel msk y x i \<noteq> 0)"

text \<open>A mask of 3 rows, 4 columns and 2 channels: channel 0 has two set pixels, channel 1 none.\<close>

definition example_mask :: mask_array where
  "example_mask =
     \<lparr>height = 3, width = 4, num_instances = 2,
      pixel = (\<lambda>y x i. if i = 0 \<and> y = 1 \<and> (x = 1 \<or> x = 2) then 1 else 0)\<rparr>"

text \<open>
  The fields of one record are valid: a shape of 3 entries, a window of 4 and one
  entry per class.
\<close>

definition meta_fields_valid :: "nat \<Rightarrow> 'a \<times> 'a list \<times> 'a list \<times> 'a list \<Rightarrow> bool" where
  "meta_fields_valid num_classes r =
     (case r of (image_id, image_shape, window, active_class_ids) \<Rightarrow>
        length image_shape = 3 \<and> length window = 4 \<and> length active_class_ids = num_classes)"

text \<open>\<open>compose_image_meta\<close> on the fields of one record, given as a tuple.\<close>

definition compose_record :: "'a \<times> 'a list \<times> 'a list \<times> 'a list \<Rightarrow> 'a list" where
  "compose_record r =
     (case r of (image_id, image_shape, window, active_class_ids) \<Rightarrow>
        compose_image_meta image_id image_shape window active_class_ids)"

text \<open>
  A stand-in for the library: every resize is accepted, and the two draws are the
  lower and the upper bound.
\<close>

definition all_accepting :: externals where
  "all_accepting = \<lparr>resize_accepts = (\<lambda>shape out. True), randint_y = (\<lambda>lo hi. lo), randint_x = (\<lambda>lo hi. hi)\<rparr>"

text \<open>
  The integer pixel box of a mapped box: every coordinate truncated towards zero, as
  \<open>unmold_boxes\<close> converts the result of \<open>to_img_domain\<close>.
\<close>

definition pixel_box :: "real box \<Rightarrow> int box" where
  "pixel_box b = (case b of (y1, x1, y2, x2) \<Rightarrow> (trunc y1, trunc x1, trunc y2, trunc x2))"

definition int32_box :: "int box \<Rightarrow> int32 box" where
  "int32_box b =
     (case b of (y1, x1, y2, x2) \<Rightarrow> (word_of_int y1, word_of_int x1, word_of_int y2, word_of_int x2))"

text \<open>
  The three degeneracy tests of the specification on a box of integer pixel
  coordinates, over the integers: non-positive area, width at most 2, height at most 2.
\<close>

definition degenerate :: "int box \<Rightarrow> bool" where
  "degenerate b =
     (case b of (y1, x1, y2, x2) \<Rightarrow>
        (y2 - y1) * (x2 - x1) \<le> 0 \<or> x2 - x1 \<le> 2 \<or> y2 - y1 \<le> 2)"

text \<open>The same three tests on a mapped box before it is truncated, over the reals.\<close>

definition degenerate_mapped :: "real box \<Rightarrow> bool" where
  "degenerate_mapped b =
     (case b of (y1, x1, y2, x2) \<Rightarrow>
        (y2 - y1) * (x2 - x1) \<le> 0 \<or> x2 - x1 \<le> 2 \<or> y2 - y1 \<le> 2)"

text \<open>
  Pixel coordinates of at most \<open>2 ^ 14\<close> in absolute value: for these the 32-bit
  differences and their product do not wrap.
\<close>

definition in_pixel_range :: "int box \<Rightarrow> bool" where
  "in_pixel_range b =
     (case b of (y1, x1, y2, x2) \<Rightarrow>
        \<bar>y1\<bar> \<le> 2 ^ 14 \<and> \<bar>x1\<bar> \<le> 2 ^ 14 \<and> \<bar>y2\<bar> \<le> 2 ^ 14 \<and> \<bar>x2\<bar> \<le> 2 ^ 14)"

text \<open>
  What is left of a column \<open>xs\<close> of per-detection values after the detections with a
  degenerate pixel box are dropped: the filter of the specification, in the original
  order.
\<close>

definition survivors :: "'a list \<Rightarrow> int box list \<Rightarrow> 'a list" where
  "survivors xs boxes = map fst (filter (\<lambda>p. \<not> degenerate (snd p)) (zip xs boxes))"

text \<open>
  The three tests and the filter as the \<open>int32\<close> tensor computes them, with differences
  and a product that wrap around.
\<close>

definition degenerate_int32 :: "int32 box \<Rightarrow> bool" where
  "degenerate_int32 b =
     (case b of (y1, x1, y2, x2) \<Rightarrow>
        sint ((y2 - y1) * (x2 - x1)) \<le> 0 \<or> sint (x2 - x1) \<le> 2 \<or> sint (y2 - y1) \<le> 2)"

definition survivors_int32 :: "'a list \<Rightarrow> int32 box list \<Rightarrow> 'a list" where
  "survivors_int32 xs boxes = map fst (filter (\<lambda>p. \<not> degenerate_int32 (snd p)) (zip xs boxes))"

text \<open>A stand-in for \<open>unmold_mask\<close> that records which mask it was given with which box.\<close>

definition tagging_unmolder :: "(nat, nat \<times> int32 box) unmolder" where
  "tagging_unmolder m b shape = Some (m, b)"

text \<open>Three raw detections on a 10 by 10 canvas; the second has zero width.\<close>

definition example_detections :: "detection list" where
  "example_detections =
     [(1, 1, 5, 5, 1, 0.9), (2, 3, 6, 3, 0, 0.8), (0.5, 0.5, 3, 4, 1, 0.7)]"

text \<open>
  Three boxes in the order of their producer, not of their scores: boxes 0 and 1 are
  the same square, box 2 is apart from both, and box 1 has the highest score.
\<close>

definition unsorted_dets :: "det list" where
  "unsorted_dets = [(0, 0, 10, 10, 0.1), (0, 0, 10, 10, 0.9), (20, 20, 30, 30, 0.5)]"

section \<open>Properties\<close>

subsection \<open>Facts about the helpers\<close>

lemma collect_map_Inr: "collect (map (\<lambda>x. Inr (f x)) xs) = Inr (map f xs)"
  by (induction xs) simp_all

lemma collect_all_Inr:
  "\<forall>x\<in>set xs. f x = Inr (g x) \<Longrightarrow> collect (map f xs) = Inr (map g xs)"
  by (induction xs) simp_all

lemma broadcast2_same_length:
  "length xs = length ys \<Longrightarrow> broadcast2 e f xs ys = collect (map2 f xs ys)"
  by (simp add: broadcast2_def)

subsection \<open>The delta round trip\<close>

lemma box_refinement_row_inverse:
  assumes "0 < box_height b" and "0 < box_width b"
  shows "box_refinement_row b (apply_box_deltas_row b d) = Inr d"
proof -
  obtain by1 bx1 by2 bx2 where b: "b = (by1, bx1, by2, bx2)"
    by (cases b) auto
  obtain d0 d1 d2 d3 where d: "d = (d0, d1, d2, d3)"
    by (cases d) auto
  from assms b have h: "by2 - by1 \<noteq> 0" "0 < by2 - by1" and w: "bx2 - bx1 \<noteq> 0" "0 < bx2 - bx1"
    by (simp_all add: box_height_def box_width_def)
  have eh: "(by2 - by1) * exp d2 / (by2 - by1) = exp d2"
    using h by simp
  have ew: "(bx2 - bx1) * exp d3 / (bx2 - bx1) = exp d3"
    using w by simp
  have ry: "(d0 * (by2 - by1)) / (by2 - by1) = d0"
    using h by simp
  have rx: "(d1 * (bx2 - bx1)) / (bx2 - bx1) = d1"
    using w by simp
  show ?thesis
    unfolding b d box_refinement_row_def apply_box_deltas_row_def Let_def
    using h w eh ew ry rx
    by (simp add: algebra_simps not_le)
qed

lemma box_refinement_rows_inverse:
  assumes "length bs = length ds"
    and "\<forall>b\<in>set bs. 0 < box_height b \<and> 0 < box_width b"
  shows "box_refinement bs (map2 apply_box_deltas_row bs ds) = Inr ds"
  using assms
proof (induction bs ds rule: list_induct2)
  case Nil
  then show ?case by (simp add: box_refinement_def broadcast2_def)
next
  case (Cons b bs d ds)
  then have "box_refinement bs (map2 apply_box_deltas_row bs ds) = Inr ds"
    by simp
  then have "collect (map2 box_refinement_row bs (map2 apply_box_deltas_row bs ds)) = Inr ds"
    using Cons.hyps by (simp add: box_refinement_def broadcast2_def)
  moreover have "box_refinement_row b (apply_box_deltas_row b d) = Inr d"
    using Cons.prems by (simp add: box_refinement_row_inverse)
  ultimately show ?case
    using Cons.hyps by (simp add: box_refinement_def broadcast2_def)
qed

lemma apply_box_deltas_rows:
  "length bs = length ds \<Longrightarrow>
   broadcast2 RuntimeError (\<lambda>b d. Inr (apply_box_deltas_row b d)) bs ds
     = Inr (map2 apply_box_deltas_row bs ds)"
proof -
  assume "length bs = length ds"
  then have "broadcast2 RuntimeError (\<lambda>b d. Inr (apply_box_deltas_row b d)) bs ds
      = collect (map (\<lambda>p. Inr (case p of (b, d) \<Rightarrow> apply_box_deltas_row b d)) (zip bs ds))"
    by (simp add: broadcast2_def case_prod_unfold)
  then show ?thesis
    by (simp only: collect_map_Inr)
qed

lemma collect_apply_box_deltas_rows:
  "list_all2 (\<lambda>bs ds. length bs = length ds) boxes deltas \<Longrightarrow>
   collect (map2 (broadcast2 RuntimeError (\<lambda>b d. Inr (apply_box_deltas_row b d))) boxes deltas)
     = Inr (map2 (map2 apply_box_deltas_row) boxes deltas)"
  by (induction boxes deltas rule: list_all2_induct) (simp_all add: apply_box_deltas_rows)

lemma apply_box_deltas_same_shape:
  assumes "list_all2 (\<lambda>bs ds. length bs = length ds) boxes deltas"
  shows "apply_box_deltas boxes deltas = Inr (map2 (map2 apply_box_deltas_row) boxes deltas)"
proof -
  have "length boxes = length deltas"
    using assms by (rule list_all2_lengthD)
  then have "apply_box_deltas boxes deltas
      = collect (map2 (broadcast2 RuntimeError (\<lambda>b d. Inr (apply_box_deltas_row b d))) boxes deltas)"
    unfolding apply_box_deltas_def by (rule broadcast2_same_length)
  then show ?thesis
    using assms by (simp only: collect_apply_box_deltas_rows)
qed

text \<open>
  Claim C3. For boxes of positive height and width and any deltas of the same shape,
  \<open>apply_box_deltas\<close> returns a tensor, and \<open>box_refinement\<close> of each batch entry against
  the decoded boxes gives back that entry's deltas: encoder and decoder are exact
  inverses (over the reals; the rounding of floats is not modelled).
\<close>

theorem box_refinement_apply_box_deltas:
  assumes "list_all2 (\<lambda>bs ds. length bs = length ds) boxes deltas"
    and "\<forall>bs\<in>set boxes. \<forall>b\<in>set bs. 0 < box_height b \<and> 0 < box_width b"
  shows "\<exists>res. apply_box_deltas boxes deltas = Inr res
           \<and> length res = length boxes
           \<and> (\<forall>i<length boxes. box_refinement (boxes ! i) (res ! i) = Inr (deltas ! i))"
proof -
  let ?res = "map2 (map2 apply_box_deltas_row) boxes deltas"
  have len: "length boxes = length deltas"
    using assms(1) by (rule list_all2_lengthD)
  have "apply_box_deltas boxes deltas = Inr ?res"
    using assms(1) by (rule apply_box_deltas_same_shape)
  moreover have "length ?res = length boxes"
    using len by simp
  moreover have "\<forall>i<length boxes. box_refinement (boxes ! i) (?res ! i) = Inr (deltas ! i)"
  proof (intro allI impI)
    fix i assume i: "i < length boxes"
    have "length (boxes ! i) = length (deltas ! i)"
      using list_all2_nthD [OF assms(1) i] .
    moreover have "\<forall>b\<in>set (boxes ! i). 0 < box_height b \<and> 0 < box_width b"
      using assms(2) i nth_mem by blast
    ultimately have "box_refinement (boxes ! i) (map2 apply_box_deltas_row (boxes ! i) (deltas ! i))
        = Inr (deltas ! i)"
      by (rule box_refinement_rows_inverse)
    then show "box_refinement (boxes ! i) (?res ! i) = Inr (deltas ! i)"
      using i len by simp
  qed
  ultimately show ?thesis by blast
qed

theorem box_refinement_apply_box_deltas_witness:
  "\<exists>res. apply_box_deltas [[(0, 0, 10, 20)]] [[(1, 2, 3, 4)]] = Inr res
     \<and> box_refinement [(0, 0, 10, 20)] (res ! 0) = Inr [(1, 2, 3, 4)]"
  using box_refinement_apply_box_deltas [of "[[(0, 0, 10, 20)]]" "[[(1, 2, 3, 4)]]"]
  by (auto simp add: box_height_def box_width_def)

subsection \<open>Intersection over union\<close>

lemma intersection_area_commute: "intersection_area a b = intersection_area b a"
  by (cases a, cases b) (simp add: intersection_area_def Let_def max.commute min.commute)

lemma intersection_area_nonneg: "0 \<le> intersection_area a b"
  by (cases a, cases b) (simp add: intersection_area_def Let_def)

lemma intersection_area_le_left:
  assumes "box_invariant a"
  shows "intersection_area a b \<le> rect_area a"
proof -
  obtain ay1 ax1 ay2 ax2 where a: "a = (ay1, ax1, ay2, ax2)"
    by (cases a) auto
  obtain by1 bx1 by2 bx2 where b: "b = (by1, bx1, by2, bx2)"
    by (cases b) auto
  from assms a have inv: "ay1 \<le> ay2" "ax1 \<le> ax2"
    by (simp_all add: box_invariant_def)
  have x: "max (min ax2 bx2 - max ax1 bx1) 0 \<le> ax2 - ax1"
    using inv by auto
  have y: "max (min ay2 by2 - max ay1 by1) 0 \<le> ay2 - ay1"
    using inv by auto
  have "max (min ax2 bx2 - max ax1 bx1) 0 * max (min ay2 by2 - max ay1 by1) 0
      \<le> (ax2 - ax1) * (ay2 - ay1)"
    using x y inv by (intro mult_mono) simp_all
  then show ?thesis
    by (simp add: a b intersection_area_def rect_area_def Let_def mult.commute)
qed

lemma intersection_area_self:
  "box_invariant a \<Longrightarrow> intersection_area a a = rect_area a"
  by (cases a) (simp add: intersection_area_def rect_area_def box_invariant_def Let_def
      max_def mult.commute)

lemma intersection_area_disjoint:
  "\<not> boxes_overlap a b \<Longrightarrow> intersection_area a b = 0"
  by (cases a, cases b) (auto simp add: intersection_area_def boxes_overlap_def Let_def max_def)

lemma compute_iou_single:
  "box_area_a + area_b - intersection_area a b \<noteq> 0 \<Longrightarrow>
   compute_iou a [b] box_area_a [area_b]
     = Inr [intersection_area a b / (box_area_a + area_b - intersection_area a b)]"
  by (simp add: compute_iou_def broadcast2_def Let_def)

text \<open>
  Claim C8. For boxes \<open>a\<close> and \<open>b\<close> that satisfy the box invariant, with their areas
  precomputed as the caller does and a union that is not zero, \<open>compute_iou\<close> gives the
  same value in both directions, the value lies between 0 and 1, it is 1 for identical
  boxes of positive area and 0 for boxes that do not overlap.
\<close>

theorem compute_iou_properties:
  assumes "box_invariant a" and "box_invariant b"
    and "rect_area a + rect_area b - intersection_area a b \<noteq> 0"
  shows "\<exists>v. compute_iou a [b] (rect_area a) [rect_area b] = Inr [v]
           \<and> compute_iou b [a] (rect_area b) [rect_area a] = Inr [v]
           \<and> 0 \<le> v \<and> v \<le> 1
           \<and> (a = b \<and> 0 < rect_area a \<longrightarrow> v = 1)
           \<and> (\<not> boxes_overlap a b \<longrightarrow> v = 0)"
proof -
  let ?i = "intersection_area a b"
  let ?u = "rect_area a + rect_area b - ?i"
  have comm: "intersection_area b a = ?i"
    by (rule intersection_area_commute)
  have i0: "0 \<le> ?i"
    by (rule intersection_area_nonneg)
  have ia: "?i \<le> rect_area a"
    using assms(1) by (rule intersection_area_le_left)
  have ib: "?i \<le> rect_area b"
    using intersection_area_le_left [OF assms(2), of a] comm by simp
  have upos: "0 < ?u"
    using assms(3) i0 ia ib by linarith
  have fwd: "compute_iou a [b] (rect_area a) [rect_area b] = Inr [?i / ?u]"
    using assms(3) by (rule compute_iou_single)
  have "rect_area b + rect_area a - intersection_area b a \<noteq> 0"
    using assms(3) comm by (simp add: add.commute)
  then have "compute_iou b [a] (rect_area b) [rect_area a]
      = Inr [intersection_area b a / (rect_area b + rect_area a - intersection_area b a)]"
    by (rule compute_iou_single)
  then have bwd: "compute_iou b [a] (rect_area b) [rect_area a] = Inr [?i / ?u]"
    by (simp add: comm add.commute)
  have lo: "0 \<le> ?i / ?u"
    using i0 upos by simp
  have hi: "?i / ?u \<le> 1"
    using ib ia upos by simp
  have same: "a = b \<and> 0 < rect_area a \<longrightarrow> ?i / ?u = 1"
  proof
    assume h: "a = b \<and> 0 < rect_area a"
    then have "?i = rect_area a"
      using assms(1) by (simp add: intersection_area_self)
    moreover have "rect_area b = rect_area a" "rect_area a \<noteq> 0"
      using h by auto
    ultimately show "?i / ?u = 1"
      by simp
  qed
  have apart: "\<not> boxes_overlap a b \<longrightarrow> ?i / ?u = 0"
    by (simp add: intersection_area_disjoint)
  show ?thesis
    using fwd bwd lo hi same apart by blast
qed

theorem compute_iou_properties_witness:
  "compute_iou (0, 0, 2, 2) [(1, 1, 3, 3)] 4 [4] = Inr [1 / 7]
   \<and> compute_iou (1, 1, 3, 3) [(0, 0, 2, 2)] 4 [4] = Inr [1 / 7]
   \<and> compute_iou (0, 0, 2, 2) [(0, 0, 2, 2)] 4 [4] = Inr [1]
   \<and> compute_iou (0, 0, 2, 2) [(2, 0, 4, 2)] 4 [4] = Inr [0]"
proof -
  have inv: "box_invariant (0, 0, 2, 2)" "box_invariant (1, 1, 3, 3)" "box_invariant (2, 0, 4, 2)"
    by (simp_all add: box_invariant_def)
  have ar: "rect_area (0, 0, 2, 2) = 4" "rect_area (1, 1, 3, 3) = 4" "rect_area (2, 0, 4, 2) = 4"
    by (simp_all add: rect_area_def)
  have i1: "intersection_area (0, 0, 2, 2) (1, 1, 3, 3) = 1"
    and i2: "intersection_area (0, 0, 2, 2) (0, 0, 2, 2) = 4"
    and i3: "intersection_area (0, 0, 2, 2) (2, 0, 4, 2) = 0"
    by (simp_all add: intersection_area_def Let_def)
  have o3: "\<not> boxes_overlap (0, 0, 2, 2) (2, 0, 4, 2)"
    by (simp add: boxes_overlap_def)
  from compute_iou_properties [OF inv(1) inv(2)] ar i1
  have "\<exists>v. compute_iou (0, 0, 2, 2) [(1, 1, 3, 3)] 4 [4] = Inr [v]
      \<and> compute_iou (1, 1, 3, 3) [(0, 0, 2, 2)] 4 [4] = Inr [v]"
    by auto
  moreover have "compute_iou (0, 0, 2, 2) [(1, 1, 3, 3)] 4 [4] = Inr [1 / 7]"
    using compute_iou_single [of 4 4 "(0, 0, 2, 2)" "(1, 1, 3, 3)"] i1 by simp
  moreover from compute_iou_properties [OF inv(1) inv(1)] ar i2
  have "compute_iou (0, 0, 2, 2) [(0, 0, 2, 2)] 4 [4] = Inr [1]"
    by auto
  moreover from compute_iou_properties [OF inv(1) inv(3)] ar i3 o3
  have "compute_iou (0, 0, 2, 2) [(2, 0, 4, 2)] 4 [4] = Inr [0]"
    by auto
  ultimately show ?thesis
    by auto
qed

subsection \<open>The map to the image domain\<close>

text \<open>
  Claim C9. For a window of positive height and width, \<open>to_img_domain\<close> subtracts the
  window's corner \<open>(y1, x1)\<close> from both corners of every box and multiplies by
  \<open>scale_y = image_h / (window.y2 - window.y1)\<close> and
  \<open>scale_x = image_w / (window.x2 - window.x1)\<close>; with the window \<open>(0, 0, 10, 10)\<close> and
  a 100 by 100 image every coordinate is multiplied by 10.
\<close>

theorem to_img_domain_formula:
  assumes "wy1 < wy2" and "wx1 < wx2"
  shows "to_img_domain boxes (wy1, wx1, wy2, wx2) (image_h, image_w, depth)
           = Inr (map (\<lambda>(y1, x1, y2, x2).
                    ((y1 - wy1) * (real_of_int image_h / (wy2 - wy1)),
                     (x1 - wx1) * (real_of_int image_w / (wx2 - wx1)),
                     (y2 - wy1) * (real_of_int image_h / (wy2 - wy1)),
                     (x2 - wx1) * (real_of_int image_w / (wx2 - wx1)))) boxes)
         \<and> to_img_domain [(y1, x1, y2, x2)] (0, 0, 10, 10) (100, 100, depth)
           = Inr [(y1 * 10, x1 * 10, y2 * 10, x2 * 10)]"
proof -
  have f: "(\<lambda>b. box_mul (box_sub b (wy1, wx1, wy1, wx1)) (sy, sx, sy, sx))
      = (\<lambda>(y1, x1, y2, x2). ((y1 - wy1) * sy, (x1 - wx1) * sx, (y2 - wy1) * sy, (x2 - wx1) * sx))"
    for sy sx
    by (rule ext) (simp add: box_mul_def box_sub_def split: prod.splits)
  have "to_img_domain boxes (wy1, wx1, wy2, wx2) (image_h, image_w, depth)
      = Inr (map (\<lambda>b. box_mul (box_sub b (wy1, wx1, wy1, wx1))
                 (real_of_int image_h / (wy2 - wy1), real_of_int image_w / (wx2 - wx1),
                  real_of_int image_h / (wy2 - wy1), real_of_int image_w / (wx2 - wx1))) boxes)"
    using assms by (simp add: to_img_domain_def Let_def)
  then have general: "to_img_domain boxes (wy1, wx1, wy2, wx2) (image_h, image_w, depth)
      = Inr (map (\<lambda>(y1, x1, y2, x2).
                    ((y1 - wy1) * (real_of_int image_h / (wy2 - wy1)),
                     (x1 - wx1) * (real_of_int image_w / (wx2 - wx1)),
                     (y2 - wy1) * (real_of_int image_h / (wy2 - wy1)),
                     (x2 - wx1) * (real_of_int image_w / (wx2 - wx1)))) boxes)"
    by (simp only: f)
  have "to_img_domain [(y1, x1, y2, x2)] (0, 0, 10, 10) (100, 100, depth)
      = Inr [(y1 * 10, x1 * 10, y2 * 10, x2 * 10)]"
    by (simp add: to_img_domain_def Let_def box_mul_def box_sub_def)
  with general show ?thesis
    by (rule conjI)
qed

theorem to_img_domain_formula_witness:
  "to_img_domain [(2, 4, 6, 8)] (2, 2, 12, 22) (100, 100, 3) = Inr [(0, 10, 40, 30)]
   \<and> to_img_domain [(1, 2, 3, 4)] (0, 0, 10, 10) (100, 100, 3) = Inr [(10, 20, 30, 40)]"
  using to_img_domain_formula [of 2 12 2 22 "[(2, 4, 6, 8)]" 100 100 3 1 2 3 4]
  by simp

subsection \<open>Boxes of masks\<close>

lemma mem_filter_upt: "k \<in> set (filter P [0..<n]) \<longleftrightarrow> k < n \<and> P k"
  by auto

lemma sorted_le_last: "sorted xs \<Longrightarrow> k \<in> set xs \<Longrightarrow> k \<le> last (xs :: nat list)"
  by (induction xs) auto

lemma sorted_hd_le: "sorted xs \<Longrightarrow> k \<in> set xs \<Longrightarrow> hd xs \<le> (k :: nat)"
  by (cases xs) auto

lemma hd_filter_upt_least:
  assumes "filter P [0..<n] \<noteq> []"
  shows "hd (filter P [0..<n]) < n \<and> P (hd (filter P [0..<n]))
       \<and> (\<forall>k<n. P k \<longrightarrow> hd (filter P [0..<n]) \<le> k)"
proof -
  let ?xs = "filter P [0..<n]"
  have s: "sorted ?xs" by (simp add: sorted_wrt_filter)
  have m: "hd ?xs < n \<and> P (hd ?xs)"
    using hd_in_set [OF assms] by (simp only: mem_filter_upt)
  have "\<forall>k<n. P k \<longrightarrow> hd ?xs \<le> k"
    using sorted_hd_le [OF s] mem_filter_upt [of _ P n] by blast
  then show ?thesis using m by blast
qed

lemma last_filter_upt_greatest:
  assumes "filter P [0..<n] \<noteq> []"
  shows "last (filter P [0..<n]) < n \<and> P (last (filter P [0..<n]))
       \<and> (\<forall>k<n. P k \<longrightarrow> k \<le> last (filter P [0..<n]))"
proof -
  let ?xs = "filter P [0..<n]"
  have s: "sorted ?xs" by (simp add: sorted_wrt_filter)
  have m: "last ?xs < n \<and> P (last ?xs)"
    using last_in_set [OF assms] by (simp only: mem_filter_upt)
  have "\<forall>k<n. P k \<longrightarrow> k \<le> last ?xs"
    using sorted_le_last [OF s] mem_filter_upt [of _ P n] by blast
  then show ?thesis using m by blast
qed

lemma horizontal_nonempty_iff:
  "horizontal_indicies msk i \<noteq> [] \<longleftrightarrow> (\<exists>y x. channel_set msk i y x)"
  by (simp add: horizontal_indicies_def channel_set_def filter_empty_conv list_ex_iff Bex_def) blast

lemma vertical_nonempty_iff:
  "vertical_indicies msk i \<noteq> [] \<longleftrightarrow> (\<exists>y x. channel_set msk i y x)"
  by (simp add: vertical_indicies_def channel_set_def filter_empty_conv list_ex_iff Bex_def)

lemma extract_bbox_empty:
  "\<not> (\<exists>y x. channel_set msk i y x) \<Longrightarrow> extract_bbox msk i = Inr (0, 0, 0, 0)"
  using horizontal_nonempty_iff [of msk i] by (simp add: extract_bbox_def Let_def)

lemma extract_bbox_tight:
  assumes "\<exists>y x. channel_set msk i y x"
  shows "\<exists>y1 x1 y2 x2. extract_bbox msk i = Inr (int y1, int x1, int y2 + 1, int x2 + 1)
     \<and> (\<forall>y x. channel_set msk i y x \<longrightarrow> y1 \<le> y \<and> y \<le> y2 \<and> x1 \<le> x \<and> x \<le> x2)
     \<and> (\<exists>x. channel_set msk i y1 x) \<and> (\<exists>x. channel_set msk i y2 x)
     \<and> (\<exists>y. channel_set msk i y x1) \<and> (\<exists>y. channel_set msk i y x2)"
proof -
  let ?P = "\<lambda>x. list_ex (\<lambda>y. pixel msk y x i \<noteq> 0) [0..<height msk]"
  let ?Q = "\<lambda>y. list_ex (\<lambda>x. pixel msk y x i \<noteq> 0) [0..<width msk]"
  let ?hs = "horizontal_indicies msk i" and ?vs = "vertical_indicies msk i"
  have hne: "?hs \<noteq> []" and vne: "?vs \<noteq> []"
    using assms by (simp_all add: horizontal_nonempty_iff vertical_nonempty_iff)
  have P: "?P x \<longleftrightarrow> (\<exists>y<height msk. pixel msk y x i \<noteq> 0)" for x
    by (auto simp add: list_ex_iff)
  have Q: "?Q y \<longleftrightarrow> (\<exists>x<width msk. pixel msk y x i \<noteq> 0)" for y
    by (auto simp add: list_ex_iff)
  have h1: "hd ?hs < width msk \<and> ?P (hd ?hs) \<and> (\<forall>k<width msk. ?P k \<longrightarrow> hd ?hs \<le> k)"
    using hne unfolding horizontal_indicies_def by (rule hd_filter_upt_least)
  have h2: "last ?hs < width msk \<and> ?P (last ?hs) \<and> (\<forall>k<width msk. ?P k \<longrightarrow> k \<le> last ?hs)"
    using hne unfolding horizontal_indicies_def by (rule last_filter_upt_greatest)
  have v1: "hd ?vs < height msk \<and> ?Q (hd ?vs) \<and> (\<forall>k<height msk. ?Q k \<longrightarrow> hd ?vs \<le> k)"
    using vne unfolding vertical_indicies_def by (rule hd_filter_upt_least)
  have v2: "last ?vs < height msk \<and> ?Q (last ?vs) \<and> (\<forall>k<height msk. ?Q k \<longrightarrow> k \<le> last ?vs)"
    using vne unfolding vertical_indicies_def by (rule last_filter_upt_greatest)
  have eq: "extract_bbox msk i = Inr (int (hd ?vs), int (hd ?hs), int (last ?vs) + 1, int (last ?hs) + 1)"
    using hne vne by (simp add: extract_bbox_def Let_def)
  have inside: "\<forall>y x. channel_set msk i y x \<longrightarrow>
      hd ?vs \<le> y \<and> y \<le> last ?vs \<and> hd ?hs \<le> x \<and> x \<le> last ?hs"
    using h1 h2 v1 v2 unfolding P Q channel_set_def by blast
  have t1: "\<exists>x. channel_set msk i (hd ?vs) x" and t2: "\<exists>x. channel_set msk i (last ?vs) x"
    using v1 v2 unfolding Q channel_set_def by blast+
  have t3: "\<exists>y. channel_set msk i y (hd ?hs)" and t4: "\<exists>y. channel_set msk i y (last ?hs)"
    using h1 h2 unfolding P channel_set_def by blast+
  show ?thesis
    using eq inside t1 t2 t3 t4 by blast
qed

lemma extract_bbox_returns: "\<exists>b. extract_bbox msk i = Inr b"
proof (cases "\<exists>y x. channel_set msk i y x")
  case True
  then show ?thesis using extract_bbox_tight by blast
next
  case False
  then show ?thesis using extract_bbox_empty by blast
qed

lemma extract_bboxes_returns:
  "extract_bboxes msk = Inr (map (\<lambda>i. projr (extract_bbox msk i)) [0..<num_instances msk])"
proof -
  have "\<forall>i\<in>set [0..<num_instances msk].
      extract_bbox msk i = Inr (projr (extract_bbox msk i))"
    using extract_bbox_returns [of msk] by (metis sum.sel(2))
  then show ?thesis
    unfolding extract_bboxes_def by (rule collect_all_Inr)
qed

text \<open>
  Claim C10. \<open>extract_bboxes\<close> returns one box per channel. For a channel with a set
  pixel the box is \<open>(y1, x1, y2 + 1, x2 + 1)\<close>, where \<open>y1\<close> and \<open>y2\<close> are the first and
  the last row with a set pixel and \<open>x1\<close> and \<open>x2\<close> the first and the last such column:
  every set pixel lies inside, with exclusive upper bounds, and each of the four
  sides touches a set pixel. For a channel with no set pixel the box is \<open>(0, 0, 0, 0)\<close>,
  and no error is raised.
\<close>

theorem extract_bboxes_tight:
  "\<exists>boxes. extract_bboxes msk = Inr boxes \<and> length boxes = num_instances msk
     \<and> (\<forall>i<num_instances msk.
          if \<exists>y x. channel_set msk i y x
          then \<exists>y1 x1 y2 x2. boxes ! i = (int y1, int x1, int y2 + 1, int x2 + 1)
                 \<and> (\<forall>y x. channel_set msk i y x \<longrightarrow>
                        int y1 \<le> int y \<and> int y < int y2 + 1 \<and> int x1 \<le> int x \<and> int x < int x2 + 1)
                 \<and> (\<exists>x. channel_set msk i y1 x) \<and> (\<exists>x. channel_set msk i y2 x)
                 \<and> (\<exists>y. channel_set msk i y x1) \<and> (\<exists>y. channel_set msk i y x2)
          else boxes ! i = (0, 0, 0, 0))"
proof -
  let ?boxes = "map (\<lambda>i. projr (extract_bbox msk i)) [0..<num_instances msk]"
  have "\<forall>i<num_instances msk.
          if \<exists>y x. channel_set msk i y x
          then \<exists>y1 x1 y2 x2. ?boxes ! i = (int y1, int x1, int y2 + 1, int x2 + 1)
                 \<and> (\<forall>y x. channel_set msk i y x \<longrightarrow>
                        int y1 \<le> int y \<and> int y < int y2 + 1 \<and> int x1 \<le> int x \<and> int x < int x2 + 1)
                 \<and> (\<exists>x. channel_set msk i y1 x) \<and> (\<exists>x. channel_set msk i y2 x)
                 \<and> (\<exists>y. channel_set msk i y x1) \<and> (\<exists>y. channel_set msk i y x2)
          else ?boxes ! i = (0, 0, 0, 0)"
  proof (intro allI impI)
    fix i assume i: "i < num_instances msk"
    show "if \<exists>y x. channel_set msk i y x
          then \<exists>y1 x1 y2 x2. ?boxes ! i = (int y1, int x1, int y2 + 1, int x2 + 1)
                 \<and> (\<forall>y x. channel_set msk i y x \<longrightarrow>
                        int y1 \<le> int y \<and> int y < int y2 + 1 \<and> int x1 \<le> int x \<and> int x < int x2 + 1)
                 \<and> (\<exists>x. channel_set msk i y1 x) \<and> (\<exists>x. channel_set msk i y2 x)
                 \<and> (\<exists>y. channel_set msk i y x1) \<and> (\<exists>y. channel_set msk i y x2)
          else ?boxes ! i = (0, 0, 0, 0)"
    proof (cases "\<exists>y x. channel_set msk i y x")
      case True
      from extract_bbox_tight [OF True] obtain y1 x1 y2 x2 where
        e: "extract_bbox msk i = Inr (int y1, int x1, int y2 + 1, int x2 + 1)"
        and ins: "\<forall>y x. channel_set msk i y x \<longrightarrow> y1 \<le> y \<and> y \<le> y2 \<and> x1 \<le> x \<and> x \<le> x2"
        and t: "\<exists>x. channel_set msk i y1 x" "\<exists>x. channel_set msk i y2 x"
          "\<exists>y. channel_set msk i y x1" "\<exists>y. channel_set msk i y x2"
        by blast
      have b: "?boxes ! i = (int y1, int x1, int y2 + 1, int x2 + 1)"
        using i e by simp
      have "\<forall>y x. channel_set msk i y x \<longrightarrow>
          int y1 \<le> int y \<and> int y < int y2 + 1 \<and> int x1 \<le> int x \<and> int x < int x2 + 1"
        using ins by fastforce
      with b t True show ?thesis
        by (simp only: if_True) blast
    next
      case False
      then have "?boxes ! i = (0, 0, 0, 0)"
        using i extract_bbox_empty [of msk i] by simp
      with False show ?thesis by simp
    qed
  qed
  moreover have "length ?boxes = num_instances msk"
    by simp
  ultimately show ?thesis
    using extract_bboxes_returns [of msk] by blast
qed

theorem extract_bboxes_tight_witness:
  "\<exists>boxes. extract_bboxes example_mask = Inr boxes \<and> length boxes = 2
     \<and> boxes ! 0 = (1, 1, 2, 3) \<and> boxes ! 1 = (0, 0, 0, 0)
     \<and> channel_set example_mask 0 1 1 \<and> channel_set example_mask 0 1 2"
proof -
  have e: "extract_bboxes example_mask = Inr [(1, 1, 2, 3), (0, 0, 0, 0)]"
    by code_simp
  have c: "channel_set example_mask 0 1 1" "channel_set example_mask 0 1 2"
    by (simp_all add: channel_set_def example_mask_def)
  from extract_bboxes_tight [of example_mask] obtain boxes where
    b: "extract_bboxes example_mask = Inr boxes" "length boxes = num_instances example_mask"
    by blast
  have bx: "boxes = [(1, 1, 2, 3), (0, 0, 0, 0)]"
    using b(1) e by simp
  have n: "length boxes = 2"
    using b(2) by (simp add: example_mask_def)
  have "boxes ! 0 = (1, 1, 2, 3)" "boxes ! 1 = (0, 0, 0, 0)"
    by (simp_all add: bx)
  with b(1) n c show ?thesis
    by blast
qed

subsection \<open>The metadata round trip\<close>

lemma compose_record_length:
  "meta_fields_valid n r \<Longrightarrow> length (compose_record r) = 8 + n"
  by (cases r) (simp add: meta_fields_valid_def compose_record_def compose_image_meta_def)

lemma compose_record_fields:
  assumes "meta_fields_valid n r"
  shows "hd (compose_record r) = fst r"
    and "take 3 (drop 1 (compose_record r)) = fst (snd r)"
    and "take 4 (drop 4 (compose_record r)) = fst (snd (snd r))"
    and "drop 8 (compose_record r) = snd (snd (snd r))"
  using assms
  by (cases r; simp add: meta_fields_valid_def compose_record_def compose_image_meta_def)+

lemma np_stack_same_length:
  assumes "rows \<noteq> []" and "\<forall>r\<in>set rows. length r = n"
  shows "np_stack rows = Inr (Array2 n rows)"
  using assms by (cases rows) (auto simp add: np_stack_def list_all_iff)

text \<open>
  Claim C4, as amended. \<open>parse_image_meta\<close> reads a batch: for one or more valid records
  \<open>(image_id, image_shape, window, active_class_ids)\<close> over the same number of classes,
  the records that \<open>compose_image_meta\<close> builds have \<open>8 + num_classes\<close> entries each,
  \<open>np.stack\<close> makes them the rows of one array, and \<open>parse_image_meta\<close> of that array
  gives back the ids, the shapes, the windows and the class lists, record by record.
\<close>

theorem parse_compose_image_meta_batch:
  assumes "inputs \<noteq> []" and "\<forall>r\<in>set inputs. meta_fields_valid num_classes r"
  shows "np_stack (map compose_record inputs) = Inr (Array2 (8 + num_classes) (map compose_record inputs))
       \<and> parse_image_meta (Array2 (8 + num_classes) (map compose_record inputs))
           = Inr (map fst inputs, map (\<lambda>r. fst (snd r)) inputs,
                  map (\<lambda>r. fst (snd (snd r))) inputs, map (\<lambda>r. snd (snd (snd r))) inputs)"
proof -
  have "\<forall>r\<in>set (map compose_record inputs). length r = 8 + num_classes"
    using assms(2) by (auto simp add: compose_record_length)
  then have st: "np_stack (map compose_record inputs)
      = Inr (Array2 (8 + num_classes) (map compose_record inputs))"
    using assms(1) by (intro np_stack_same_length) simp_all
  have v: "meta_fields_valid num_classes r" if "r \<in> set inputs" for r
    using assms(2) that by blast
  have f1: "map (\<lambda>r. hd (compose_record r)) inputs = map fst inputs"
    by (rule map_cong [OF refl], rule compose_record_fields(1), rule v)
  have f2: "map (\<lambda>r. take 3 (drop 1 (compose_record r))) inputs = map (\<lambda>r. fst (snd r)) inputs"
    by (rule map_cong [OF refl], rule compose_record_fields(2), rule v)
  have f3: "map (\<lambda>r. take 4 (drop 4 (compose_record r))) inputs
      = map (\<lambda>r. fst (snd (snd r))) inputs"
    by (rule map_cong [OF refl], rule compose_record_fields(3), rule v)
  have f4: "map (\<lambda>r. drop 8 (compose_record r)) inputs = map (\<lambda>r. snd (snd (snd r))) inputs"
    by (rule map_cong [OF refl], rule compose_record_fields(4), rule v)
  have p: "parse_image_meta (Array2 (8 + num_classes) (map compose_record inputs))
      = Inr (map (\<lambda>r. hd (compose_record r)) inputs,
             map (\<lambda>r. take 3 (drop 1 (compose_record r))) inputs,
             map (\<lambda>r. take 4 (drop 4 (compose_record r))) inputs,
             map (\<lambda>r. drop 8 (compose_record r)) inputs)"
    by (simp add: parse_image_meta_def Let_def comp_def)
  have "parse_image_meta (Array2 (8 + num_classes) (map compose_record inputs))
      = Inr (map fst inputs, map (\<lambda>r. fst (snd r)) inputs,
             map (\<lambda>r. fst (snd (snd r))) inputs, map (\<lambda>r. snd (snd (snd r))) inputs)"
    unfolding p f1 f2 f3 f4 by (rule refl)
  with st show ?thesis by (rule conjI)
qed

theorem parse_compose_image_meta_batch_witness:
  "np_stack [compose_image_meta 7 [100, 50, 3] [14, 39, 114, 89] [1, 0 :: int]]
      = Inr (Array2 10 [[7, 100, 50, 3, 14, 39, 114, 89, 1, 0]])
   \<and> parse_image_meta (Array2 10 [[7, 100, 50, 3, 14, 39, 114, 89, 1, 0 :: int]])
      = Inr ([7], [[100, 50, 3]], [[14, 39, 114, 89]], [[1, 0]])"
  using parse_compose_image_meta_batch [of "[(7, [100, 50, 3], [14, 39, 114, 89], [1, 0 :: int])]" 2]
  by (simp add: meta_fields_valid_def compose_record_def compose_image_meta_def)

text \<open>
  Claim C4 as stated fails: the flat record that \<open>compose_image_meta\<close> returns has one
  dimension, and \<open>parse_image_meta\<close> indexes it with two.
\<close>

theorem parse_image_meta_flat_record_counterexample:
  "parse_image_meta (Array1 (compose_image_meta 7 [100, 50, 3] [14, 39, 114, 89] [1, 0 :: int]))
     = Inl IndexError"
  by (simp add: parse_image_meta_def)

subsection \<open>Resizing\<close>

lemma py_round_of_int [simp]: "py_round (of_int n) = n"
  by (simp add: py_round_def Let_def)

lemma py_round_numeral [simp]: "py_round (numeral n) = numeral n"
  using py_round_of_int [of "numeral n"] by simp

lemma py_round_ge_floor: "\<lfloor>x\<rfloor> \<le> py_round x"
  by (simp add: py_round_def Let_def)

lemma py_round_le_floor1: "py_round x \<le> \<lfloor>x\<rfloor> + 1"
  by (simp add: py_round_def Let_def)

lemma py_round_nonneg: "0 \<le> x \<Longrightarrow> 0 \<le> py_round x"
  using py_round_ge_floor [of x] by (simp add: order_trans [of 0 "\<lfloor>x\<rfloor>"])

lemma py_round_le_int:
  assumes "x \<le> of_int m"
  shows "py_round x \<le> m"
proof (cases "x = of_int m")
  case True
  then show ?thesis by simp
next
  case False
  with assms have "x < of_int m" by simp
  then have "\<lfloor>x\<rfloor> < m" by (simp add: floor_less_iff)
  then show ?thesis using py_round_le_floor1 [of x] by linarith
qed

text \<open>
  Claim C5 as stated fails: with \<open>max_dim = 128\<close> alone (no \<open>min_dim\<close>, no \<open>min_scale\<close>)
  nothing scales the 100 by 50 image up. The scale stays 1 and the window is the
  100 by 50 region in the middle of the 128 by 128 canvas.
\<close>

theorem resize_image_square_default_counterexample:
  "\<forall>ext. resize_image ext (100, 50) None (Some 128) None ''square''
     = Inr ((128, 128), (14, 39, 114, 89), 1, ((14, 14), (39, 39), (0, 0)), None)"
  by (simp add: resize_image_def scale_min_dim_def scale_min_scale_def scale_pad64_def
      scale_max_dim_def skimage_resize_def pad_square_def np_pad_def and_then_def Let_def)

text \<open>
  Claim C5, as amended. In \<open>square\<close> mode with \<open>max_dim = 128\<close> and a \<open>min_dim\<close> of at
  least 64 (and no \<open>min_scale\<close>), a 100 by 50 image is scaled by 1.28 to 128 by 64 and
  padded left and right by 32 to 128 by 128; the window \<open>(0, 32, 128, 96)\<close> is the
  128 by 64 region, with the height to width ratio 2 of the original.
\<close>

theorem resize_image_square_example:
  assumes "64 \<le> m" and "resize_accepts ext (100, 50) (128, 64)"
  shows "resize_image ext (100, 50) (Some m) (Some 128) None ''square''
     = Inr ((128, 128), (0, 32, 128, 96), 1.28, ((0, 0), (32, 32), (0, 0)), None)"
proof -
  have s1: "scale_min_dim (Some m) ''square'' 100 50 = Inr (real_of_int m / 50)"
    using assms(1) by (simp add: scale_min_dim_def max_def)
  have s2: "scale_max_dim (Some 128) ''square'' 100 50 (real_of_int m / 50) = Inr 1.28"
  proof (cases "m = 64")
    case True
    then show ?thesis by (simp add: scale_max_dim_def Let_def)
  next
    case False
    with assms(1) have "65 \<le> m" by simp
    have "py_round (100 * (real_of_int m / 50)) = 2 * m"
      using py_round_of_int [of "2 * m"] by simp
    then show ?thesis
      using \<open>65 \<le> m\<close> by (simp add: scale_max_dim_def Let_def)
  qed
  have s3: "skimage_resize ext (100, 50) (32 / 25) = Inr (128, 64)"
    using assms(2) by (simp add: skimage_resize_def Let_def)
  have s4: "pad_square (Some 128) 128 64 (32 / 25)
      = Inr ((128, 128), (0, 32, 128, 96), 32 / 25, ((0, 0), (32, 32), (0, 0)), None)"
    by (simp add: pad_square_def np_pad_def and_then_def Let_def)
  show ?thesis
    by (simp add: resize_image_def s1 scale_min_scale_def scale_pad64_def s2 s3 s4 and_then_def)
qed

lemma resize_image_pad64_unfold:
  "resize_image ext (ih, iw) min_dim max_dim min_scale ''pad64'' =
     and_then (scale_pad64 min_dim ''pad64'' (int ih) (int iw) 0) (\<lambda>scale.
     and_then (skimage_resize ext (ih, iw) scale) (\<lambda>(h, w).
       case min_dim of None \<Rightarrow> Inl TypeError | Some m \<Rightarrow> pad_pad64 m max_dim h w scale))"
proof -
  have a: "scale_min_dim min_dim ''pad64'' h w = Inr 1" for h w
    by (simp add: scale_min_dim_def split: option.splits)
  have b: "scale_pad64 min_dim ''pad64'' h w s = scale_pad64 min_dim ''pad64'' h w 0" for h w s
    by (simp add: scale_pad64_def)
  have c: "scale_max_dim max_dim ''pad64'' h w s = Inr s" for h w s
    by (simp add: scale_max_dim_def split: option.splits)
  show ?thesis
    unfolding resize_image_def
    by (simp add: a c b [of _ _ "scale_min_scale min_scale 1"] and_then_def Let_def
        split: sum.splits)
qed

lemma pad_pad64_Inr:
  assumes "pad_pad64 m max_dim h w scale = Inr (img, window, scale', padding, crop)"
  shows "m mod 64 = 0 \<and> scale' = scale \<and> crop = None
     \<and> (\<exists>M. max_dim = Some M \<and> img = (m, M)
            \<and> padding = (((m - h) div 2, m - h - (m - h) div 2),
                          ((M - w) div 2, M - w - (M - w) div 2), (0, 0))
            \<and> window = ((m - h) div 2, (M - w) div 2, h + (m - h) div 2, w + (M - w) div 2)
            \<and> h \<le> m \<and> w \<le> M)"
proof -
  from assms have m64: "m mod 64 = 0"
    by (simp add: pad_pad64_def split: if_splits)
  from assms m64 obtain M where M: "max_dim = Some M"
    by (cases max_dim) (simp_all add: pad_pad64_def Let_def split: if_splits prod.splits)
  have tb: "(if m \<noteq> h then (let max_h = m; top_pad = (max_h - h) div 2
                  in (top_pad, max_h - h - top_pad)) else (0, 0))
      = ((m - h) div 2, m - h - (m - h) div 2)"
    by (simp add: Let_def)
  have lr: "(if M \<noteq> w then (let max_w = M; left_pad = (max_w - w) div 2
                  in (left_pad, max_w - w - left_pad)) else (0, 0))
      = ((M - w) div 2, M - w - (M - w) div 2)"
    by (simp add: Let_def)
  have eq: "pad_pad64 m max_dim h w scale =
      and_then (np_pad (h, w) (((m - h) div 2, m - h - (m - h) div 2),
                               ((M - w) div 2, M - w - (M - w) div 2), (0, 0)))
        (\<lambda>img. Inr (img, ((m - h) div 2, (M - w) div 2, h + (m - h) div 2, w + (M - w) div 2),
                    scale, (((m - h) div 2, m - h - (m - h) div 2),
                            ((M - w) div 2, M - w - (M - w) div 2), (0, 0)), None))"
    unfolding pad_pad64_def M using m64 by (simp only: tb lr) (simp add: Let_def)
  from assms eq have nn: "0 \<le> (m - h) div 2" "0 \<le> m - h - (m - h) div 2"
      "0 \<le> (M - w) div 2" "0 \<le> M - w - (M - w) div 2"
    by (auto simp add: and_then_def np_pad_def split: if_splits)
  then have le: "h \<le> m" "w \<le> M"
    by linarith+
  from assms eq nn have "img = (m, M) \<and> scale' = scale \<and> crop = None
      \<and> padding = (((m - h) div 2, m - h - (m - h) div 2),
                          ((M - w) div 2, M - w - (M - w) div 2), (0, 0))
      \<and> window = ((m - h) div 2, (M - w) div 2, h + (m - h) div 2, w + (M - w) div 2)"
    by (auto simp add: and_then_def np_pad_def split: if_splits)
  with m64 M le show ?thesis by blast
qed

lemma pad_pad64_returns:
  assumes "m mod 64 = 0" and "h \<le> m" and "w \<le> M"
  shows "pad_pad64 m (Some M) h w scale =
     Inr ((m, M), ((m - h) div 2, (M - w) div 2, h + (m - h) div 2, w + (M - w) div 2), scale,
          (((m - h) div 2, m - h - (m - h) div 2), ((M - w) div 2, M - w - (M - w) div 2), (0, 0)),
          None)"
proof -
  have nn: "0 \<le> (m - h) div 2" "0 \<le> m - h - (m - h) div 2"
      "0 \<le> (M - w) div 2" "0 \<le> M - w - (M - w) div 2"
    using assms(2,3) by linarith+
  show ?thesis
    using assms(1) nn
    by (simp add: pad_pad64_def Let_def np_pad_def and_then_def not_less)
qed

lemma int_max_nat: "max (int a) (int b) = int (max a b)"
  by (simp add: max_def)

lemma scale_pad64_Inr:
  "scale_pad64 min_dim ''pad64'' (int ih) (int iw) s0 = Inr scale \<longleftrightarrow>
     (\<exists>m. min_dim = Some m \<and> 0 < max ih iw \<and> scale = real_of_int m / real (max ih iw))"
  by (cases min_dim) (auto simp add: scale_pad64_def int_max_nat)

lemma skimage_resize_bounds:
  assumes "skimage_resize ext (ih, iw) (real_of_int m / real (max ih iw)) = Inr (h, w)"
    and "0 \<le> m" and "0 < max ih iw"
  shows "h \<le> m"
proof (cases "real_of_int m / real (max ih iw) = 1")
  case True
  then have "real_of_int m = real (max ih iw)"
    using assms(3) by simp
  then have "m = int (max ih iw)"
    by linarith
  moreover have "h = int ih"
    using assms(1) True by (simp add: skimage_resize_def)
  ultimately show ?thesis by simp
next
  case False
  then have h: "h = py_round (real ih * (real_of_int m / real (max ih iw)))"
    using assms(1) by (simp add: skimage_resize_def Let_def split: if_splits)
  have "real ih / real (max ih iw) \<le> 1"
    using assms(3) by simp
  then have "real ih / real (max ih iw) * real_of_int m \<le> 1 * real_of_int m"
    using assms(2) by (intro mult_right_mono) simp_all
  then have "real ih * (real_of_int m / real (max ih iw)) \<le> real_of_int m"
    by (simp add: field_simps)
  then show ?thesis
    unfolding h by (rule py_round_le_int)
qed

theorem resize_image_square_example_witness:
  "resize_image all_accepting (100, 50) (Some 128) (Some 128) None ''square''
     = Inr ((128, 128), (0, 32, 128, 96), 1.28, ((0, 0), (32, 32), (0, 0)), None)
   \<and> resize_image all_accepting (100, 50) (Some 64) (Some 128) None ''square''
     = Inr ((128, 128), (0, 32, 128, 96), 1.28, ((0, 0), (32, 32), (0, 0)), None)"
  using resize_image_square_example [of 128 all_accepting]
    resize_image_square_example [of 64 all_accepting]
  by (simp add: all_accepting_def)

text \<open>
  Claim C6. In \<open>pad64\<close> mode the result does not depend on \<open>min_scale\<close>. Whenever
  \<open>resize_image\<close> returns, \<open>min_dim\<close> is a multiple of 64, the scale is
  \<open>min_dim / max(h, w)\<close>, the scaled image is padded to height \<open>min_dim\<close> and width
  \<open>max_dim\<close>, and each padding is split in two halves, the second one larger by at most
  1; the window is the scaled image inside the canvas. It does return when \<open>min_dim\<close> is
  a non-negative multiple of 64, the image is not empty, the library accepts the resize
  and the scaled width is at most \<open>max_dim\<close>.
\<close>

theorem resize_image_pad64:
  "resize_image ext (ih, iw) min_dim max_dim min_scale ''pad64''
     = resize_image ext (ih, iw) min_dim max_dim None ''pad64''
   \<and> (\<forall>img window scale padding crop.
        resize_image ext (ih, iw) min_dim max_dim min_scale ''pad64''
          = Inr (img, window, scale, padding, crop) \<longrightarrow>
        (\<exists>m M h w top_pad bottom_pad left_pad right_pad.
           min_dim = Some m \<and> max_dim = Some M \<and> m mod 64 = 0
           \<and> scale = real_of_int m / real (max ih iw)
           \<and> skimage_resize ext (ih, iw) scale = Inr (h, w)
           \<and> img = (m, M)
           \<and> padding = ((top_pad, bottom_pad), (left_pad, right_pad), (0, 0))
           \<and> top_pad + h + bottom_pad = m \<and> left_pad + w + right_pad = M
           \<and> 0 \<le> top_pad \<and> top_pad \<le> bottom_pad \<and> bottom_pad \<le> top_pad + 1
           \<and> 0 \<le> left_pad \<and> left_pad \<le> right_pad \<and> right_pad \<le> left_pad + 1
           \<and> window = (top_pad, left_pad, h + top_pad, w + left_pad)
           \<and> crop = None))
   \<and> (\<forall>m M h w.
        min_dim = Some m \<and> max_dim = Some M \<and> 0 \<le> m \<and> m mod 64 = 0 \<and> 0 < max ih iw
        \<and> skimage_resize ext (ih, iw) (real_of_int m / real (max ih iw)) = Inr (h, w) \<and> w \<le> M
        \<longrightarrow> (\<exists>r. resize_image ext (ih, iw) min_dim max_dim min_scale ''pad64'' = Inr r))"
proof (intro conjI allI impI)
  show "resize_image ext (ih, iw) min_dim max_dim min_scale ''pad64''
     = resize_image ext (ih, iw) min_dim max_dim None ''pad64''"
    by (simp only: resize_image_pad64_unfold)
next
  fix img window scale padding crop
  assume r: "resize_image ext (ih, iw) min_dim max_dim min_scale ''pad64''
      = Inr (img, window, scale, padding, crop)"
  from r obtain s where s: "scale_pad64 min_dim ''pad64'' (int ih) (int iw) 0 = Inr s"
    unfolding resize_image_pad64_unfold by (auto simp add: and_then_def split: sum.splits)
  then obtain m where m: "min_dim = Some m" "0 < max ih iw" "s = real_of_int m / real (max ih iw)"
    unfolding scale_pad64_Inr by blast
  from r s obtain h w where hw: "skimage_resize ext (ih, iw) s = Inr (h, w)"
    unfolding resize_image_pad64_unfold by (auto simp add: and_then_def split: sum.splits)
  from r s hw m(1) have p: "pad_pad64 m max_dim h w s = Inr (img, window, scale, padding, crop)"
    unfolding resize_image_pad64_unfold by (simp add: and_then_def)
  from pad_pad64_Inr [OF p] obtain M where
    P: "m mod 64 = 0" "scale = s" "crop = None" "max_dim = Some M" "img = (m, M)"
      "padding = (((m - h) div 2, m - h - (m - h) div 2),
                  ((M - w) div 2, M - w - (M - w) div 2), (0, 0))"
      "window = ((m - h) div 2, (M - w) div 2, h + (m - h) div 2, w + (M - w) div 2)"
      "h \<le> m" "w \<le> M"
    by (elim conjE exE) (rule that; assumption)
  let ?t = "(m - h) div 2" and ?b = "m - h - (m - h) div 2"
  let ?l = "(M - w) div 2" and ?r = "M - w - (M - w) div 2"
  have ar: "?t + h + ?b = m" "?l + w + ?r = M" "0 \<le> ?t" "?t \<le> ?b" "?b \<le> ?t + 1"
      "0 \<le> ?l" "?l \<le> ?r" "?r \<le> ?l + 1"
    using P(8,9) by linarith+
  show "\<exists>m M h w top_pad bottom_pad left_pad right_pad.
           min_dim = Some m \<and> max_dim = Some M \<and> m mod 64 = 0
           \<and> scale = real_of_int m / real (max ih iw)
           \<and> skimage_resize ext (ih, iw) scale = Inr (h, w)
           \<and> img = (m, M)
           \<and> padding = ((top_pad, bottom_pad), (left_pad, right_pad), (0, 0))
           \<and> top_pad + h + bottom_pad = m \<and> left_pad + w + right_pad = M
           \<and> 0 \<le> top_pad \<and> top_pad \<le> bottom_pad \<and> bottom_pad \<le> top_pad + 1
           \<and> 0 \<le> left_pad \<and> left_pad \<le> right_pad \<and> right_pad \<le> left_pad + 1
           \<and> window = (top_pad, left_pad, h + top_pad, w + left_pad)
           \<and> crop = None"
    apply (rule exI [of _ m], rule exI [of _ M], rule exI [of _ h], rule exI [of _ w])
    apply (rule exI [of _ ?t], rule exI [of _ ?b], rule exI [of _ ?l], rule exI [of _ ?r])
    using m(1,3) P(1-7) hw ar by simp
next
  fix m M h w
  assume a: "min_dim = Some m \<and> max_dim = Some M \<and> 0 \<le> m \<and> m mod 64 = 0 \<and> 0 < max ih iw
        \<and> skimage_resize ext (ih, iw) (real_of_int m / real (max ih iw)) = Inr (h, w) \<and> w \<le> M"
  then have s: "scale_pad64 min_dim ''pad64'' (int ih) (int iw) 0
      = Inr (real_of_int m / real (max ih iw))"
    unfolding scale_pad64_Inr by simp
  have "h \<le> m"
    using a skimage_resize_bounds by blast
  then have "pad_pad64 m (Some M) h w (real_of_int m / real (max ih iw)) =
     Inr ((m, M), ((m - h) div 2, (M - w) div 2, h + (m - h) div 2, w + (M - w) div 2),
          real_of_int m / real (max ih iw),
          (((m - h) div 2, m - h - (m - h) div 2), ((M - w) div 2, M - w - (M - w) div 2), (0, 0)),
          None)"
    using a by (intro pad_pad64_returns) simp_all
  then show "\<exists>r. resize_image ext (ih, iw) min_dim max_dim min_scale ''pad64'' = Inr r"
    unfolding resize_image_pad64_unfold using a s by (simp add: and_then_def)
qed

theorem resize_image_pad64_witness:
  "resize_image all_accepting (100, 50) (Some 64) (Some 128) (Some 2) ''pad64''
     = Inr ((64, 128), (0, 48, 64, 80), 16 / 25, ((0, 0), (48, 48), (0, 0)), None)
   \<and> resize_image all_accepting (100, 50) (Some 64) (Some 128) None ''pad64''
     = Inr ((64, 128), (0, 48, 64, 80), 16 / 25, ((0, 0), (48, 48), (0, 0)), None)"
proof -
  have e: "resize_image all_accepting (100, 50) (Some 64) (Some 128) None ''pad64''
     = Inr ((64, 128), (0, 48, 64, 80), 16 / 25, ((0, 0), (48, 48), (0, 0)), None)"
    by (simp add: resize_image_pad64_unfold scale_pad64_def skimage_resize_def all_accepting_def
        pad_pad64_def np_pad_def and_then_def Let_def)
  show ?thesis
    using resize_image_pad64 [of all_accepting 100 50 "Some 64" "Some 128" "Some 2"] e
    by simp
qed

lemma pad_pad64_not_multiple:
  "m mod 64 \<noteq> 0 \<Longrightarrow>
   pad_pad64 m max_dim h w scale = Inl (AssertionError ''Minimum dimension must be a multiple of 64'')"
  by (simp add: pad_pad64_def)

text \<open>
  Claim C7. In \<open>pad64\<close> mode with a \<open>min_dim\<close> that is not a multiple of 64,
  \<open>resize_image\<close> never returns a result, whatever the image. For an image that is not
  empty and a resize that the library accepts, the failure is the assertion
  \<open>Minimum dimension must be a multiple of 64\<close> (the specification's GeometryPrecondition).
\<close>

theorem resize_image_pad64_not_multiple:
  assumes "m mod 64 \<noteq> 0"
  shows "(\<exists>e. resize_image ext (ih, iw) (Some m) max_dim min_scale ''pad64'' = Inl e)
     \<and> (0 < max ih iw
          \<and> (\<exists>h w. skimage_resize ext (ih, iw) (real_of_int m / real (max ih iw)) = Inr (h, w))
        \<longrightarrow> resize_image ext (ih, iw) (Some m) max_dim min_scale ''pad64''
              = Inl (AssertionError ''Minimum dimension must be a multiple of 64''))"
proof (intro conjI impI)
  show "\<exists>e. resize_image ext (ih, iw) (Some m) max_dim min_scale ''pad64'' = Inl e"
    unfolding resize_image_pad64_unfold
    by (auto simp add: and_then_def pad_pad64_not_multiple [OF assms] split: sum.splits)
next
  assume a: "0 < max ih iw
      \<and> (\<exists>h w. skimage_resize ext (ih, iw) (real_of_int m / real (max ih iw)) = Inr (h, w))"
  then obtain h w where
    hw: "skimage_resize ext (ih, iw) (real_of_int m / real (max ih iw)) = Inr (h, w)"
    by blast
  have s: "scale_pad64 (Some m) ''pad64'' (int ih) (int iw) 0
      = Inr (real_of_int m / real (max ih iw))"
    unfolding scale_pad64_Inr using a by simp
  show "resize_image ext (ih, iw) (Some m) max_dim min_scale ''pad64''
      = Inl (AssertionError ''Minimum dimension must be a multiple of 64'')"
    unfolding resize_image_pad64_unfold
    by (simp add: s hw and_then_def pad_pad64_not_multiple [OF assms])
qed

theorem resize_image_pad64_not_multiple_witness:
  "resize_image all_accepting (100, 50) (Some 100) (Some 128) None ''pad64''
     = Inl (AssertionError ''Minimum dimension must be a multiple of 64'')
   \<and> resize_image all_accepting (100, 50) (Some 72) (Some 128) None ''pad64''
     = Inl (AssertionError ''Minimum dimension must be a multiple of 64'')"
proof -
  have "skimage_resize all_accepting (100, 50) (real_of_int 100 / real (max 100 50)) = Inr (100, 50)"
    by (simp add: skimage_resize_def)
  moreover have "skimage_resize all_accepting (100, 50) (real_of_int 72 / real (max 100 50))
      = Inr (72, 36)"
    by (simp add: skimage_resize_def all_accepting_def Let_def)
  ultimately show ?thesis
    using resize_image_pad64_not_multiple [of 100 all_accepting 100 50 "Some 128" None]
      resize_image_pad64_not_multiple [of 72 all_accepting 100 50 "Some 128" None]
    by simp
qed

subsection \<open>Unmolding\<close>

lemma skip_zero_iff: "skip b = 0 \<longleftrightarrow> \<not> degenerate_int32 b"
  by (cases b) (auto simp add: skip_def degenerate_int32_def Let_def)

lemma zip_as_map_nth:
  "length xs = length ys \<Longrightarrow> zip xs ys = map (\<lambda>i. (xs ! i, ys ! i)) [0..<length ys]"
  by (rule nth_equalityI) simp_all

lemma gather_in_range:
  "\<forall>i\<in>set ix. i < length xs \<Longrightarrow> gather xs ix = Inr (map (\<lambda>i. xs ! i) ix)"
  unfolding gather_def by (rule collect_all_Inr) simp

lemma gather_positive_area:
  assumes "length xs = length boxes"
  shows "gather xs (positive_area boxes) = Inr (survivors_int32 xs boxes)"
proof -
  have "gather xs (positive_area boxes) = Inr (map (\<lambda>i. xs ! i) (positive_area boxes))"
    using assms by (intro gather_in_range) (simp add: positive_area_def)
  moreover have "survivors_int32 xs boxes = map (\<lambda>i. xs ! i) (positive_area boxes)"
    unfolding survivors_int32_def positive_area_def zip_as_map_nth [OF assms]
    by (simp add: filter_map comp_def skip_zero_iff)
  ultimately show ?thesis by simp
qed

lemma positive_area_empty_iff: "positive_area boxes = [] \<longleftrightarrow> list_all degenerate_int32 boxes"
proof -
  have "positive_area boxes = [] \<longleftrightarrow> (\<forall>i<length boxes. degenerate_int32 (boxes ! i))"
    by (auto simp add: positive_area_def filter_empty_conv skip_zero_iff)
  also have "\<dots> \<longleftrightarrow> list_all degenerate_int32 boxes"
    by (simp add: list_all_length)
  finally show ?thesis .
qed

lemma filter_length_eq: "length (filter P xs) = length xs \<Longrightarrow> filter P xs = xs"
  by (metis filter_True length_filter_less linorder_not_less order_refl)

lemma survivors_all:
  assumes "length (positive_area boxes) = length boxes" and "length xs = length boxes"
  shows "survivors_int32 xs boxes = xs"
proof -
  have "positive_area boxes = [0..<length boxes]"
    using assms(1) unfolding positive_area_def by (intro filter_length_eq) simp
  then have "map (\<lambda>i. xs ! i) (positive_area boxes) = xs"
    using assms(2) map_nth [of xs] by simp
  moreover have "gather xs (positive_area boxes) = Inr (survivors_int32 xs boxes)"
    using assms(2) by (rule gather_positive_area)
  moreover have "gather xs (positive_area boxes) = Inr (map (\<lambda>i. xs ! i) (positive_area boxes))"
    using assms(2) by (intro gather_in_range) (simp add: positive_area_def)
  ultimately show ?thesis by simp
qed

lemma remove_zero_area_filter:
  assumes "length class_ids = length boxes" and "length masks = length boxes"
    and "length scores = length boxes"
  shows "remove_zero_area boxes class_ids masks (Some scores) =
     (if list_all degenerate_int32 boxes then Inl NoPositiveAreaError
      else Inr (survivors_int32 boxes boxes, survivors_int32 class_ids boxes, survivors_int32 masks boxes,
                Some (survivors_int32 scores boxes)))"
proof (cases "positive_area boxes = []")
  case True
  then show ?thesis
    by (simp add: remove_zero_area_def positive_area_empty_iff [symmetric])
next
  case ne: False
  then have nd: "\<not> list_all degenerate_int32 boxes"
    by (simp add: positive_area_empty_iff)
  show ?thesis
  proof (cases "length (positive_area boxes) = length boxes")
    case True
    then show ?thesis
      using ne nd assms by (simp add: remove_zero_area_def survivors_all)
  next
    case False
    then show ?thesis
      using ne nd assms
      by (simp add: remove_zero_area_def gather_positive_area and_then_def)
  qed
qed

lemma collect_Inr_iff: "collect rs = Inr vs \<longleftrightarrow> rs = map Inr vs"
proof (induction rs arbitrary: vs)
  case Nil
  then show ?case by auto
next
  case (Cons r rs)
  show ?case
  proof (cases r)
    case (Inl e)
    then show ?thesis by (cases vs) auto
  next
    case (Inr v)
    then show ?thesis
      using Cons.IH by (cases vs; cases "collect rs") auto
  qed
qed

lemma collect_Inl_mem: "collect rs = Inl e \<Longrightarrow> Inl e \<in> set rs"
  by (induction rs) (auto split: sum.splits)

lemma collect_length: "collect rs = Inr vs \<Longrightarrow> length vs = length rs"
  by (auto simp add: collect_Inr_iff)

lemma gather_length: "gather xs ix = Inr ys \<Longrightarrow> length ys = length ix"
  using collect_length [of "map (\<lambda>i. if i < length xs then Inr (xs ! i) else Inl IndexError) ix" ys]
  by (simp add: gather_def)

lemma select_masks_length:
  "select_masks mrcnn_mask class_ids = Inr masks \<Longrightarrow> length masks = length class_ids"
  unfolding select_masks_def by (drule collect_length) simp

lemma to_img_domain_length:
  "to_img_domain boxes window image_shape = Inr mapped \<Longrightarrow> length mapped = length boxes"
  by (cases window; cases image_shape) (auto simp add: to_img_domain_def Let_def split: if_splits)

lemma survivors_length: "length (survivors_int32 xs boxes) = length (survivors_int32 ys boxes)"
  if "length xs = length boxes" "length ys = length boxes"
proof -
  have "gather xs (positive_area boxes) = Inr (survivors_int32 xs boxes)"
    "gather ys (positive_area boxes) = Inr (survivors_int32 ys boxes)"
    using that by (simp_all add: gather_positive_area)
  then have "length (survivors_int32 xs boxes) = length (positive_area boxes)"
    "length (survivors_int32 ys boxes) = length (positive_area boxes)"
    by (simp_all add: gather_length)
  then show ?thesis by simp
qed

lemma survivors_empty_iff:
  "length xs = length boxes \<Longrightarrow> survivors_int32 xs boxes = [] \<longleftrightarrow> list_all degenerate_int32 boxes"
proof -
  assume l: "length xs = length boxes"
  have "gather xs (positive_area boxes) = Inr (survivors_int32 xs boxes)"
    using l by (rule gather_positive_area)
  then have "length (survivors_int32 xs boxes) = length (positive_area boxes)"
    by (rule gather_length)
  then have "survivors_int32 xs boxes = [] \<longleftrightarrow> positive_area boxes = []"
    by (simp only: length_0_conv [symmetric])
  then show ?thesis
    by (simp only: positive_area_empty_iff)
qed

lemma map_upt_eq_map_Inr:
  "map f [0..<n] = map Inr vs \<longleftrightarrow> length vs = n \<and> (\<forall>i<n. f i = Inr (vs ! i))"
proof
  assume eq: "map f [0..<n] = map Inr vs"
  then have len: "length vs = n"
    by (drule_tac arg_cong [where f = length]) simp
  have "f i = Inr (vs ! i)" if "i < n" for i
  proof -
    have "map f [0..<n] ! i = map Inr vs ! i"
      by (simp only: eq)
    then show ?thesis
      using that len by simp
  qed
  with len show "length vs = n \<and> (\<forall>i<n. f i = Inr (vs ! i))"
    by blast
next
  assume "length vs = n \<and> (\<forall>i<n. f i = Inr (vs ! i))"
  then show "map f [0..<n] = map Inr vs"
    by (intro nth_equalityI) simp_all
qed

lemma option_to_result_Inr:
  "(case x of None \<Rightarrow> Inl e | Some m \<Rightarrow> Inr m) = Inr v \<longleftrightarrow> x = Some v"
  by (cases x) auto

lemma unmold_masks_result:
  assumes "length masks = length boxes"
  shows "unmold_masks um masks boxes shape = Inr full_masks \<longleftrightarrow>
     length full_masks = length boxes
     \<and> (\<forall>i<length boxes. um (masks ! i) (boxes ! i) shape = Some (full_masks ! i))"
  unfolding unmold_masks_def collect_Inr_iff assms map_upt_eq_map_Inr
  by (simp add: option_to_result_Inr cong: conj_cong)

lemma unmold_masks_error:
  "unmold_masks um masks boxes shape \<noteq> Inl NoPositiveAreaError"
proof
  assume "unmold_masks um masks boxes shape = Inl NoPositiveAreaError"
  then have "Inl NoPositiveAreaError \<in> set (map (\<lambda>i. if i < length boxes then
       (case um (masks ! i) (boxes ! i) shape of None \<Rightarrow> Inl LibraryError | Some m \<Rightarrow> Inr m)
     else Inl IndexError) [0..<length masks])"
    unfolding unmold_masks_def by (rule collect_Inl_mem)
  then show False
    by (auto split: if_splits option.splits)
qed

text \<open>
  For coordinates of at most \<open>2 ^ 14\<close> in absolute value the 32-bit differences and
  their product do not wrap, and the three tests are those on the integers.
\<close>

lemma sint_diff_small:
  fixes a b :: int32
  assumes "\<bar>sint a\<bar> \<le> 2 ^ 14" "\<bar>sint b\<bar> \<le> 2 ^ 14"
  shows "sint (a - b) = sint a - sint b"
proof -
  have "- (2 ^ 31) \<le> sint a - sint b" "sint a - sint b < 2 ^ 31"
    using assms by simp_all
  then show ?thesis
    by (simp add: sint_word_ariths signed_take_bit_int_eq_self)
qed

lemma sint_mult_small:
  fixes a b :: int32
  assumes "\<bar>sint a\<bar> \<le> 2 ^ 15" "\<bar>sint b\<bar> \<le> 2 ^ 15"
  shows "sint (a * b) = sint a * sint b"
proof -
  have "\<bar>sint a * sint b\<bar> \<le> 2 ^ 15 * 2 ^ 15"
    unfolding abs_mult using assms by (intro mult_mono) simp_all
  then have "- (2 ^ 31) \<le> sint a * sint b" "sint a * sint b < 2 ^ 31"
    by simp_all
  then show ?thesis
    by (simp add: sint_word_ariths signed_take_bit_int_eq_self)
qed

lemma degenerate_int32_pixel_range:
  assumes "\<bar>sint y1\<bar> \<le> 2 ^ 14" "\<bar>sint x1\<bar> \<le> 2 ^ 14" "\<bar>sint y2\<bar> \<le> 2 ^ 14" "\<bar>sint x2\<bar> \<le> 2 ^ 14"
  shows "degenerate_int32 (y1, x1, y2, x2) \<longleftrightarrow>
     (sint y2 - sint y1) * (sint x2 - sint x1) \<le> 0 \<or> sint x2 - sint x1 \<le> 2 \<or> sint y2 - sint y1 \<le> 2"
proof -
  have h: "sint (y2 - y1) = sint y2 - sint y1" and w: "sint (x2 - x1) = sint x2 - sint x1"
    using assms by (simp_all add: sint_diff_small)
  have "\<bar>sint (y2 - y1)\<bar> \<le> 2 ^ 15" "\<bar>sint (x2 - x1)\<bar> \<le> 2 ^ 15"
    unfolding h w using assms by simp_all
  then have "sint ((y2 - y1) * (x2 - x1)) = sint (y2 - y1) * sint (x2 - x1)"
    by (rule sint_mult_small)
  then show ?thesis
    by (simp add: degenerate_int32_def h w)
qed

text \<open>
  Outside that range the product wraps: a box of 65536 by 65536 pixels has the computed
  area 0 and is dropped.
\<close>

lemma degenerate_int32_overflow: "degenerate_int32 (0, 0, 65536, 65536)"
  by (simp add: degenerate_int32_def)

lemma unmold_detections_eq:
  assumes sel: "select_masks mrcnn_mask (map detection_class_id detections) = Inr masks"
    and dom: "to_img_domain (map detection_box detections) window (image_h, image_w, depth) = Inr mapped"
  shows "unmold_detections um detections mrcnn_mask (image_h, image_w, depth) window =
     (if list_all degenerate_int32 (map to_int32_box mapped) then Inl NoPositiveAreaError
      else and_then (unmold_masks um (survivors_int32 masks (map to_int32_box mapped))
                       (survivors_int32 (map to_int32_box mapped) (map to_int32_box mapped))
                       (image_h, image_w))
             (\<lambda>full_masks.
                Inr (survivors_int32 (map to_int32_box mapped) (map to_int32_box mapped),
                     survivors_int32 (map detection_class_id detections) (map to_int32_box mapped),
                     Some (survivors_int32 (map detection_score detections) (map to_int32_box mapped)),
                     full_masks)))"
proof -
  let ?boxes = "map to_int32_box mapped"
  have lm: "length mapped = length detections"
    using to_img_domain_length [OF dom] by simp
  have lk: "length masks = length detections"
    using select_masks_length [OF sel] by simp
  have rz: "remove_zero_area ?boxes (map detection_class_id detections) masks
        (Some (map detection_score detections)) =
     (if list_all degenerate_int32 ?boxes then Inl NoPositiveAreaError
      else Inr (survivors_int32 ?boxes ?boxes, survivors_int32 (map detection_class_id detections) ?boxes,
                survivors_int32 masks ?boxes, Some (survivors_int32 (map detection_score detections) ?boxes)))"
    using lm lk by (intro remove_zero_area_filter) simp_all
  show ?thesis
    unfolding unmold_detections_def unmold_boxes_def Let_def
    by (simp add: sel dom rz and_then_def)
qed

lemma unmold_detections_int32:
  assumes "select_masks mrcnn_mask (map detection_class_id detections) = Inr masks"
    and "to_img_domain (map detection_box detections) window (image_h, image_w, depth) = Inr mapped"
  shows "(unmold_detections um detections mrcnn_mask (image_h, image_w, depth) window
            = Inl NoPositiveAreaError
          \<longleftrightarrow> list_all degenerate_int32 (map to_int32_box mapped))
     \<and> (\<forall>boxes class_ids scores full_masks.
          unmold_detections um detections mrcnn_mask (image_h, image_w, depth) window
            = Inr (boxes, class_ids, scores, full_masks) \<longrightarrow>
          boxes = survivors_int32 (map to_int32_box mapped) (map to_int32_box mapped)
          \<and> boxes \<noteq> []
          \<and> class_ids = survivors_int32 (map detection_class_id detections) (map to_int32_box mapped)
          \<and> scores = Some (survivors_int32 (map detection_score detections) (map to_int32_box mapped))
          \<and> length full_masks = length boxes
          \<and> (\<forall>i<length boxes.
                um (survivors_int32 masks (map to_int32_box mapped) ! i) (boxes ! i) (image_h, image_w)
                  = Some (full_masks ! i)))
     \<and> (\<not> list_all degenerate_int32 (map to_int32_box mapped)
          \<and> list_all (\<lambda>(m, b). um m b (image_h, image_w) \<noteq> None)
                (zip (survivors_int32 masks (map to_int32_box mapped))
                     (survivors_int32 (map to_int32_box mapped) (map to_int32_box mapped)))
        \<longrightarrow> (\<exists>r. unmold_detections um detections mrcnn_mask (image_h, image_w, depth) window
                   = Inr r))
     \<and> (\<forall>y1 x1 y2 x2.
          \<bar>sint y1\<bar> \<le> 2 ^ 14 \<and> \<bar>sint x1\<bar> \<le> 2 ^ 14 \<and> \<bar>sint y2\<bar> \<le> 2 ^ 14 \<and> \<bar>sint x2\<bar> \<le> 2 ^ 14 \<longrightarrow>
          (degenerate_int32 (y1, x1, y2, x2) \<longleftrightarrow>
             (sint y2 - sint y1) * (sint x2 - sint x1) \<le> 0
             \<or> sint x2 - sint x1 \<le> 2 \<or> sint y2 - sint y1 \<le> 2))"
proof -
  let ?boxes = "map to_int32_box mapped"
  let ?u = "unmold_detections um detections mrcnn_mask (image_h, image_w, depth) window"
  let ?sm = "survivors_int32 masks ?boxes" and ?sb = "survivors_int32 ?boxes ?boxes"
  note eq = unmold_detections_eq [OF assms, of um]
  have lm: "length masks = length ?boxes"
    using select_masks_length [OF assms(1)] to_img_domain_length [OF assms(2)] by simp
  have ls: "length ?sm = length ?sb"
    using lm by (intro survivors_length) simp_all
  have p1: "?u = Inl NoPositiveAreaError \<longleftrightarrow> list_all degenerate_int32 ?boxes"
  proof (cases "list_all degenerate_int32 ?boxes")
    case True
    then show ?thesis by (simp add: eq)
  next
    case False
    then show ?thesis
      using unmold_masks_error [of um ?sm ?sb "(image_h, image_w)"]
      by (auto simp add: eq and_then_def split: sum.splits)
  qed
  have p2: "boxes = ?sb \<and> boxes \<noteq> []
      \<and> class_ids = survivors_int32 (map detection_class_id detections) ?boxes
      \<and> scores = Some (survivors_int32 (map detection_score detections) ?boxes)
      \<and> length full_masks = length boxes
      \<and> (\<forall>i<length boxes. um (?sm ! i) (boxes ! i) (image_h, image_w) = Some (full_masks ! i))"
    if r: "?u = Inr (boxes, class_ids, scores, full_masks)"
    for boxes class_ids scores full_masks
  proof -
    from r have nd: "\<not> list_all degenerate_int32 ?boxes"
      by (auto simp add: eq split: if_splits)
    from r nd have um: "unmold_masks um ?sm ?sb (image_h, image_w) = Inr full_masks"
      and rest: "boxes = ?sb"
        "class_ids = survivors_int32 (map detection_class_id detections) ?boxes"
        "scores = Some (survivors_int32 (map detection_score detections) ?boxes)"
      by (auto simp add: eq and_then_def split: sum.splits)
    have ne: "?sb \<noteq> []"
      using nd survivors_empty_iff [of ?boxes ?boxes] by simp
    from um have "length full_masks = length ?sb
        \<and> (\<forall>i<length ?sb. um (?sm ! i) (?sb ! i) (image_h, image_w) = Some (full_masks ! i))"
      using unmold_masks_result [OF ls, of um "(image_h, image_w)" full_masks] by blast
    with rest ne show ?thesis by simp
  qed
  have p3: "\<exists>r. ?u = Inr r"
    if h: "\<not> list_all degenerate_int32 ?boxes
      \<and> list_all (\<lambda>(m, b). um m b (image_h, image_w) \<noteq> None) (zip ?sm ?sb)"
  proof -
    have "\<forall>i<length ?sb. \<exists>f. um (?sm ! i) (?sb ! i) (image_h, image_w) = Some f"
      using h ls by (auto simp add: list_all_length)
    then obtain g where g: "\<forall>i<length ?sb. um (?sm ! i) (?sb ! i) (image_h, image_w) = Some (g i)"
      by metis
    have "unmold_masks um ?sm ?sb (image_h, image_w) = Inr (map g [0..<length ?sb])"
      unfolding unmold_masks_result [OF ls] using g by simp
    then show ?thesis
      using h by (simp add: eq and_then_def)
  qed
  have p4: "degenerate_int32 (y1, x1, y2, x2) \<longleftrightarrow>
      (sint y2 - sint y1) * (sint x2 - sint x1) \<le> 0
      \<or> sint x2 - sint x1 \<le> 2 \<or> sint y2 - sint y1 \<le> 2"
    if "\<bar>sint y1\<bar> \<le> 2 ^ 14 \<and> \<bar>sint x1\<bar> \<le> 2 ^ 14 \<and> \<bar>sint y2\<bar> \<le> 2 ^ 14 \<and> \<bar>sint x2\<bar> \<le> 2 ^ 14"
    for y1 x1 y2 x2 :: int32
    using that by (intro degenerate_int32_pixel_range) simp_all
  show ?thesis
    using p1 p2 p3 p4 by (intro conjI allI impI) blast+
qed

lemma ex_sel: "select_masks [[10, 11], [20, 21], [30, 31 :: nat]]
      (map detection_class_id example_detections) = Inr [11, 20, 31]"
  by (simp add: select_masks_def example_detections_def detection_class_id_def trunc_def
      upt_rec [of 0] upt_rec [of 1] upt_rec [of 2] Let_def)

lemma ex_dom: "to_img_domain (map detection_box example_detections) (0, 0, 10, 10) (100, 100, 3)
      = Inr [(10, 10, 50, 50), (20, 30, 60, 30), (5, 5, 30, 40)]"
  by (simp add: to_img_domain_def example_detections_def detection_box_def box_sub_def
      box_mul_def Let_def)

lemma ex_boxes: "map to_int32_box [(10, 10, 50, 50), (20, 30, 60, 30), (5, 5, 30, 40)]
      = [(10, 10, 50, 50), (20, 30, 60, 30), (5, 5, 30, 40)]"
  by (simp add: to_int32_box_def to_int32_def trunc_def)

lemma ex_deg: "\<not> degenerate_int32 (10, 10, 50, 50)" "degenerate_int32 (20, 30, 60, 30)"
    "\<not> degenerate_int32 (5, 5, 30, 40)"
  by (simp_all add: degenerate_int32_def)

lemma ex_run: "unmold_detections tagging_unmolder example_detections
       [[10, 11], [20, 21], [30, 31]] (100, 100, 3) (0, 0, 10, 10)
     = Inr ([(10, 10, 50, 50), (5, 5, 30, 40)], [1, 1], Some [0.9, 0.7],
            [(11, (10, 10, 50, 50)), (31, (5, 5, 30, 40))])"
  unfolding unmold_detections_eq [OF ex_sel ex_dom] ex_boxes
  by (simp add: survivors_int32_def ex_deg unmold_masks_def tagging_unmolder_def and_then_def
      example_detections_def detection_class_id_def detection_score_def trunc_def
      upt_rec [of 0] upt_rec [of 1] upt_rec [of 2])

text \<open>
  In the pixel range the tests and the filter of the tensor are those on the integer
  pixel boxes.
\<close>

lemma sint_word_of_int_pixel:
  "\<bar>k\<bar> \<le> 2 ^ 14 \<Longrightarrow> sint (word_of_int k :: int32) = k"
proof -
  assume "\<bar>k\<bar> \<le> 2 ^ 14"
  then have "- (2 ^ 31) \<le> k" "k < 2 ^ 31"
    by simp_all
  then show ?thesis
    by (simp add: sint_sbintrunc' signed_take_bit_int_eq_self)
qed

lemma degenerate_int32_box:
  assumes "in_pixel_range b"
  shows "degenerate_int32 (int32_box b) \<longleftrightarrow> degenerate b"
proof -
  obtain y1 x1 y2 x2 where b: "b = (y1, x1, y2, x2)"
    by (cases b) auto
  from assms b have r: "\<bar>y1\<bar> \<le> 2 ^ 14" "\<bar>x1\<bar> \<le> 2 ^ 14" "\<bar>y2\<bar> \<le> 2 ^ 14" "\<bar>x2\<bar> \<le> 2 ^ 14"
    by (simp_all add: in_pixel_range_def)
  have s: "sint (word_of_int y1 :: int32) = y1" "sint (word_of_int x1 :: int32) = x1"
      "sint (word_of_int y2 :: int32) = y2" "sint (word_of_int x2 :: int32) = x2"
    using r by (simp_all only: sint_word_of_int_pixel)
  have "degenerate_int32 (word_of_int y1, word_of_int x1, word_of_int y2, word_of_int x2) \<longleftrightarrow>
      (y2 - y1) * (x2 - x1) \<le> 0 \<or> x2 - x1 \<le> 2 \<or> y2 - y1 \<le> 2"
    using degenerate_int32_pixel_range [of "word_of_int y1 :: int32" "word_of_int x1" "word_of_int y2"
        "word_of_int x2"] r
    by (simp only: s)
  then show ?thesis
    by (simp add: b int32_box_def degenerate_def)
qed

lemma to_int32_in_range: "\<bar>trunc x\<bar> \<le> 2 ^ 14 \<Longrightarrow> to_int32 x = word_of_int (trunc x)"
proof -
  assume "\<bar>trunc x\<bar> \<le> 2 ^ 14"
  then have "- (2 ^ 31) \<le> trunc x \<and> trunc x < 2 ^ 31"
    by (simp add: abs_le_iff)
  then show ?thesis
    unfolding to_int32_def Let_def by (simp only: if_True simp_thms)
qed

lemma to_int32_box_in_range:
  "in_pixel_range (pixel_box r) \<Longrightarrow> to_int32_box r = int32_box (pixel_box r)"
  by (cases r) (simp add: in_pixel_range_def pixel_box_def to_int32_box_def int32_box_def
      to_int32_in_range)

lemma map_to_int32_box_in_range:
  "list_all in_pixel_range (map pixel_box mapped) \<Longrightarrow>
   map to_int32_box mapped = map int32_box (map pixel_box mapped)"
  by (induction mapped) (simp_all add: to_int32_box_in_range)

lemma survivors_int32_boxes:
  "list_all in_pixel_range boxes \<Longrightarrow>
   survivors_int32 xs (map int32_box boxes) = survivors xs boxes"
proof (induction boxes arbitrary: xs)
  case Nil
  show ?case by (simp add: survivors_int32_def survivors_def)
next
  case (Cons b boxes)
  show ?case
  proof (cases xs)
    case Nil
    then show ?thesis by (simp add: survivors_int32_def survivors_def)
  next
    case (Cons x xs')
    have "survivors_int32 xs' (map int32_box boxes) = survivors xs' boxes"
      using Cons.prems by (intro Cons.IH) simp
    moreover have "degenerate_int32 (int32_box b) \<longleftrightarrow> degenerate b"
      using Cons.prems by (intro degenerate_int32_box) simp
    ultimately show ?thesis
      using Cons by (simp add: survivors_int32_def survivors_def)
  qed
qed

lemma list_all_degenerate_int32_boxes:
  "list_all in_pixel_range boxes \<Longrightarrow>
   list_all degenerate_int32 (map int32_box boxes) \<longleftrightarrow> list_all degenerate boxes"
  by (induction boxes) (simp_all add: degenerate_int32_box)


lemma survivors_int32_map:
  "survivors_int32 (map f xs) boxes = map f (survivors_int32 xs boxes)"
proof (induction xs arbitrary: boxes)
  case Nil
  show ?case by (simp add: survivors_int32_def)
next
  case (Cons x xs)
  show ?case
  proof (cases boxes)
    case Nil
    then show ?thesis by (simp add: survivors_int32_def)
  next
    case (Cons b bs)
    have "survivors_int32 (map f xs) bs = map f (survivors_int32 xs bs)"
      by (rule Cons.IH)
    then show ?thesis
      using Cons by (simp add: survivors_int32_def)
  qed
qed

lemma list_all_zip_map2:
  "list_all (\<lambda>(m, b). P m b) (zip ms (map f bs)) \<longleftrightarrow> list_all (\<lambda>(m, b). P m (f b)) (zip ms bs)"
proof (induction ms arbitrary: bs)
  case Nil
  show ?case by simp
next
  case (Cons m ms)
  then show ?case by (cases bs) simp_all
qed

text \<open>
  Claim C2, as amended. The three tests run on the integer pixel boxes: the boxes mapped
  to the image domain and truncated towards zero. Let the masks of the predicted
  classes be selected, the boxes be mapped, and every pixel coordinate be at most
  \<open>2 ^ 14\<close> in absolute value. Then \<open>unmold_detections\<close> raises NoPositiveAreaError
  exactly when every pixel box is degenerate (non-positive area, width at most 2 or
  height at most 2, over the integers), which includes the case of no detection at
  all; whenever it returns, the boxes, class ids and scores are those of the
  detections whose pixel box is not degenerate, in order and not empty, and the
  \<open>i\<close>-th full mask is unmolded from the \<open>i\<close>-th surviving mask and box; and it does
  return when some pixel box is not degenerate and every surviving mask can be
  unmolded.
\<close>

theorem unmold_detections_filter:
  assumes "select_masks mrcnn_mask (map detection_class_id detections) = Inr masks"
    and "to_img_domain (map detection_box detections) window (image_h, image_w, depth) = Inr mapped"
    and "list_all in_pixel_range (map pixel_box mapped)"
  shows "(unmold_detections um detections mrcnn_mask (image_h, image_w, depth) window
            = Inl NoPositiveAreaError
          \<longleftrightarrow> list_all degenerate (map pixel_box mapped))
     \<and> (\<forall>boxes class_ids scores full_masks.
          unmold_detections um detections mrcnn_mask (image_h, image_w, depth) window
            = Inr (boxes, class_ids, scores, full_masks) \<longrightarrow>
          boxes = map int32_box (survivors (map pixel_box mapped) (map pixel_box mapped))
          \<and> boxes \<noteq> []
          \<and> class_ids = survivors (map detection_class_id detections) (map pixel_box mapped)
          \<and> scores = Some (survivors (map detection_score detections) (map pixel_box mapped))
          \<and> length full_masks = length boxes
          \<and> (\<forall>i<length boxes.
                um (survivors masks (map pixel_box mapped) ! i) (boxes ! i) (image_h, image_w)
                  = Some (full_masks ! i)))
     \<and> (\<not> list_all degenerate (map pixel_box mapped)
          \<and> list_all (\<lambda>(m, b). um m (int32_box b) (image_h, image_w) \<noteq> None)
                (zip (survivors masks (map pixel_box mapped))
                     (survivors (map pixel_box mapped) (map pixel_box mapped)))
        \<longrightarrow> (\<exists>r. unmold_detections um detections mrcnn_mask (image_h, image_w, depth) window
                   = Inr r))"
proof -
  let ?pb = "map pixel_box mapped"
  have M: "map to_int32_box mapped = map int32_box ?pb"
    using assms(3) by (rule map_to_int32_box_in_range)
  have D: "list_all degenerate_int32 (map int32_box ?pb) \<longleftrightarrow> list_all degenerate ?pb"
    using assms(3) by (rule list_all_degenerate_int32_boxes)
  have S: "survivors_int32 xs (map int32_box ?pb) = survivors xs ?pb" for xs :: "'x list"
    using assms(3) by (rule survivors_int32_boxes)
  have B: "survivors_int32 (map int32_box ?pb) (map int32_box ?pb)
      = map int32_box (survivors ?pb ?pb)"
    unfolding survivors_int32_map [of int32_box ?pb] by (simp only: S)
  have B': "survivors (map int32_box ?pb) ?pb = map int32_box (survivors ?pb ?pb)"
    using B S [of "map int32_box ?pb"] by simp
  note L = unmold_detections_int32 [OF assms(1,2), of um, unfolded M D S B' list_all_zip_map2]
  from L show ?thesis
    by (elim conjE) (intro conjI; assumption)
qed


lemma ex_pixel_boxes:
  "map pixel_box [(10, 10, 50, 50), (20, 30, 60, 30), (5, 5, 30, 40)]
     = [(10, 10, 50, 50), (20, 30, 60, 30), (5, 5, 30, 40)]"
  by (simp add: pixel_box_def trunc_def)

theorem unmold_detections_filter_witness:
  "unmold_detections tagging_unmolder example_detections
       [[10, 11], [20, 21], [30, 31]] (100, 100, 3) (0, 0, 10, 10)
     = Inr ([(10, 10, 50, 50), (5, 5, 30, 40)], [1, 1], Some [0.9, 0.7],
            [(11, (10, 10, 50, 50)), (31, (5, 5, 30, 40))])
   \<and> unmold_detections tagging_unmolder example_detections
       [[10, 11], [20, 21], [30, 31]] (100, 100, 3) (0, 0, 10, 10) \<noteq> Inl NoPositiveAreaError
   \<and> unmold_detections tagging_unmolder [(2, 3, 6, 3, 0, 0.8)] [[20, 21]] (100, 100, 3) (0, 0, 10, 10)
     = Inl NoPositiveAreaError"
proof -
  have r3: "list_all in_pixel_range (map pixel_box [(10, 10, 50, 50), (20, 30, 60, 30), (5, 5, 30, 40)])"
    unfolding ex_pixel_boxes by (simp add: in_pixel_range_def)
  have d3: "\<not> list_all degenerate (map pixel_box [(10, 10, 50, 50), (20, 30, 60, 30), (5, 5, 30, 40)])"
    unfolding ex_pixel_boxes by (simp add: degenerate_def)
  have sel: "select_masks [[20, 21 :: nat]] (map detection_class_id [(2, 3, 6, 3, 0, 0.8)]) = Inr [20]"
    by (simp add: select_masks_def detection_class_id_def trunc_def Let_def)
  have dom: "to_img_domain (map detection_box [(2, 3, 6, 3, 0, 0.8)]) (0, 0, 10, 10) (100, 100, 3)
      = Inr [(20, 30, 60, 30)]"
    by (simp add: to_img_domain_def detection_box_def box_sub_def box_mul_def Let_def)
  have p1: "map pixel_box [(20, 30, 60, 30)] = [(20, 30, 60, 30)]"
    by (simp add: pixel_box_def trunc_def)
  have r1: "list_all in_pixel_range (map pixel_box [(20, 30, 60, 30)])"
    unfolding p1 by (simp add: in_pixel_range_def)
  have d1: "list_all degenerate (map pixel_box [(20, 30, 60, 30)])"
    unfolding p1 by (simp add: degenerate_def)
  have "unmold_detections tagging_unmolder [(2, 3, 6, 3, 0, 0.8)] [[20, 21]] (100, 100, 3) (0, 0, 10, 10)
     = Inl NoPositiveAreaError"
    using unmold_detections_filter [OF sel dom r1, of tagging_unmolder] d1 by blast
  moreover have "unmold_detections tagging_unmolder example_detections
       [[10, 11], [20, 21], [30, 31]] (100, 100, 3) (0, 0, 10, 10) \<noteq> Inl NoPositiveAreaError"
    using unmold_detections_filter [OF ex_sel ex_dom r3, of tagging_unmolder] d3 by blast
  ultimately show ?thesis
    using ex_run by simp
qed

text \<open>
  Claim C2 as stated fails: a single detection whose mapped box \<open>(10, 10, 12.8, 50)\<close>
  has height 2.8, width 40 and area 112 passes none of the three tests after the
  mapping, but its pixel box \<open>(10, 10, 12, 50)\<close> has height 2, so it is dropped and
  NoPositiveAreaError is raised.
\<close>

theorem unmold_detections_truncation_counterexample:
  "to_img_domain (map detection_box [(1, 1, 1.28, 5, 0, 0.9)]) (0, 0, 10, 10) (100, 100, 3)
     = Inr [(10, 10, 12.8, 50)]
   \<and> \<not> degenerate_mapped (10, 10, 12.8, 50)
   \<and> unmold_detections tagging_unmolder [(1, 1, 1.28, 5, 0, 0.9)] [[7]] (100, 100, 3) (0, 0, 10, 10)
     = Inl NoPositiveAreaError"
proof -
  have sel: "select_masks [[7 :: nat]] (map detection_class_id [(1, 1, 1.28, 5, 0, 0.9)]) = Inr [7]"
    by (simp add: select_masks_def detection_class_id_def trunc_def Let_def)
  have dom: "to_img_domain (map detection_box [(1, 1, 1.28, 5, 0, 0.9)]) (0, 0, 10, 10) (100, 100, 3)
      = Inr [(10, 10, 64 / 5, 50)]"
    by (simp add: to_img_domain_def detection_box_def box_sub_def box_mul_def Let_def)
  have bx: "map to_int32_box [(10, 10, 64 / 5, 50)] = [(10, 10, 12, 50)]"
    by (simp add: to_int32_box_def to_int32_def trunc_def Let_def)
  have dg: "list_all degenerate_int32 [(10, 10, 12, 50)]"
    by (simp add: degenerate_int32_def)
  have nd: "\<not> degenerate_mapped (10, 10, 64 / 5, 50)"
    by (simp add: degenerate_mapped_def)
  have "unmold_detections tagging_unmolder [(1, 1, 1.28, 5, 0, 0.9)] [[7]] (100, 100, 3) (0, 0, 10, 10)
     = Inl NoPositiveAreaError"
    unfolding unmold_detections_eq [OF sel dom] bx using dg by simp
  with dom nd show ?thesis
    by simp
qed

subsection \<open>Suppression\<close>

lemma greedy_suppression_subset: "set (greedy_suppression suppresses order) \<subseteq> set order"
proof (induction suppresses order rule: greedy_suppression.induct)
  case (1 suppresses)
  show ?case by simp
next
  case (2 suppresses i remaining)
  have "set (filter (\<lambda>j. \<not> suppresses i j) remaining) \<subseteq> set remaining"
    by (rule filter_is_subset)
  with "2.IH" have "set (greedy_suppression suppresses (filter (\<lambda>j. \<not> suppresses i j) remaining))
      \<subseteq> set remaining"
    by (rule subset_trans)
  then show ?case
    by (simp add: subset_insertI2)
qed

text \<open>
  The greedy loop itself keeps no index that an index kept before it suppresses: on the
  sequential path, which visits the boxes by descending score, no box is kept whose
  overlap with a kept box of higher score exceeds the threshold.
\<close>

lemma greedy_suppression_no_conflict:
  "sorted_wrt (\<lambda>i j. \<not> suppresses i j) (greedy_suppression suppresses order)"
proof (induction suppresses order rule: greedy_suppression.induct)
  case (1 suppresses)
  show ?case by simp
next
  case (2 suppresses i remaining)
  let ?rest = "greedy_suppression suppresses (filter (\<lambda>j. \<not> suppresses i j) remaining)"
  have "set ?rest \<subseteq> set (filter (\<lambda>j. \<not> suppresses i j) remaining)"
    by (rule greedy_suppression_subset)
  then have "\<forall>j\<in>set ?rest. \<not> suppresses i j"
    by auto
  moreover have "sorted_wrt (\<lambda>i j. \<not> suppresses i j) ?rest"
    by (rule "2.IH")
  moreover have "greedy_suppression suppresses (i # remaining) = i # ?rest"
    by (rule greedy_suppression.simps(2))
  ultimately show ?case
    by (simp only: sorted_wrt.simps)
qed

lemma pth_nms_sequential_no_conflict:
  "sorted_wrt
     (\<lambda>i j. \<not> iou_exceeds (inclusive_intersection (dets ! i) (dets ! j))
                (det_area (dets ! i)) (det_area (dets ! j)) thresh)
     (pth_nms False dets thresh)"
proof -
  let ?order = "argsort_descending (map det_score dets)"
  let ?ks = "pth_nms False dets thresh"
  have sw: "sorted_wrt
      (\<lambda>i j. \<not> iou_exceeds (inclusive_intersection (dets ! i) (dets ! j))
                 (map det_area dets ! i) (map det_area dets ! j) thresh) ?ks"
    unfolding pth_nms_def cpu_nms_def Let_def
    by (simp only: not_False_eq_True if_True) (rule greedy_suppression_no_conflict)
  have "set ?ks \<subseteq> set ?order"
    unfolding pth_nms_def cpu_nms_def Let_def
    by (simp only: not_False_eq_True if_True) (rule greedy_suppression_subset)
  moreover have "set ?order = {0..<length dets}"
  proof -
    have ins: "set (insert_by_score scores i js) = insert i (set js)" for scores i js
      by (induction js) auto
    have "set (foldl (\<lambda>sorted i. insert_by_score scores i sorted) acc ks) = set acc \<union> set ks"
      for scores acc ks
      by (induction ks arbitrary: acc) (simp_all add: ins)
    then show ?thesis
      by (simp add: argsort_descending_def)
  qed
  ultimately have range: "k < length dets" if "k \<in> set ?ks" for k
    using that by auto
  show ?thesis
  proof (rule sorted_wrt_mono_rel [OF _ sw])
    fix i j
    assume "i \<in> set ?ks" and "j \<in> set ?ks"
      and "\<not> iou_exceeds (inclusive_intersection (dets ! i) (dets ! j))
             (map det_area dets ! i) (map det_area dets ! j) thresh"
    then show "\<not> iou_exceeds (inclusive_intersection (dets ! i) (dets ! j))
             (det_area (dets ! i)) (det_area (dets ! j)) thresh"
      using range [of i] range [of j] by simp
  qed
qed

lemma greedy_suppression_cong:
  assumes "\<And>i j. i \<in> set order \<Longrightarrow> j \<in> set order \<Longrightarrow> suppresses i j = suppresses' i j"
  shows "greedy_suppression suppresses order = greedy_suppression suppresses' order"
  using assms
proof (induction suppresses order rule: greedy_suppression.induct)
  case (1 suppresses)
  show ?case by simp
next
  case (2 suppresses i remaining)
  have f: "filter (\<lambda>j. \<not> suppresses i j) remaining = filter (\<lambda>j. \<not> suppresses' i j) remaining"
    by (rule filter_cong [OF refl]) (simp add: "2.prems")
  have "greedy_suppression suppresses (filter (\<lambda>j. \<not> suppresses i j) remaining)
      = greedy_suppression suppresses' (filter (\<lambda>j. \<not> suppresses i j) remaining)"
    by (rule "2.IH") (simp add: "2.prems")
  then show ?case
    by (simp only: greedy_suppression.simps f)
qed

lemma inclusive_intersection_swap_axes:
  "inclusive_intersection (swap_axes a) (swap_axes b) = inclusive_intersection a b"
  by (cases a, cases b) (simp add: inclusive_intersection_def swap_axes_def mult.commute)

lemma gpu_box_area_swap_axes: "gpu_box_area (swap_axes d) = det_area d"
  by (cases d) (simp add: gpu_box_area_def swap_axes_def det_area_def Let_def)

text \<open>
  When the rows already come by descending score, so that the score order is the
  identity, the order of the rows given to the accelerated kernel does not matter and
  the two paths return the same indices.
\<close>

lemma pth_nms_paths_agree_on_sorted:
  assumes "argsort_descending (map det_score dets) = [0..<length dets]"
  shows "pth_nms True dets thresh = pth_nms False dets thresh"
proof -
  let ?cpu = "\<lambda>i j. iou_exceeds (inclusive_intersection (dets ! i) (dets ! j))
      (map det_area dets ! i) (map det_area dets ! j) thresh"
  let ?gpu = "\<lambda>i j. iou_exceeds
      (inclusive_intersection (map swap_axes dets ! i) (map swap_axes dets ! j))
      (gpu_box_area (map swap_axes dets ! i)) (gpu_box_area (map swap_axes dets ! j)) thresh"
  have same: "greedy_suppression ?gpu [0..<length dets] = greedy_suppression ?cpu [0..<length dets]"
    by (rule greedy_suppression_cong)
      (simp add: inclusive_intersection_swap_axes gpu_box_area_swap_axes)
  have "set (greedy_suppression ?cpu [0..<length dets]) \<subseteq> set [0..<length dets]"
    by (rule greedy_suppression_subset)
  then have "\<forall>k\<in>set (greedy_suppression ?cpu [0..<length dets]). [0..<length dets] ! k = k"
    by auto
  then have readback: "map (\<lambda>k. [0..<length dets] ! k) (greedy_suppression ?cpu [0..<length dets])
      = greedy_suppression ?cpu [0..<length dets]"
    by (simp add: map_idI)
  have c: "pth_nms False dets thresh = greedy_suppression ?cpu [0..<length dets]"
    unfolding pth_nms_def cpu_nms_def Let_def assms by simp
  have g: "pth_nms True dets thresh
      = map (\<lambda>k. [0..<length dets] ! k) (greedy_suppression ?gpu [0..<length dets])"
    unfolding pth_nms_def gpu_nms_def Let_def assms by simp
  show ?thesis
    unfolding c g same readback ..
qed

text \<open>
  Claim C1 fails on the code. On \<open>unsorted_dets\<close> with threshold 0.5 the sequential
  path keeps the indices 1 and 2. The accelerated path hands the kernel the rows in
  their original order and then reads the kernel's row numbers 0 and 2 through the
  score order \<open>[1, 2, 0]\<close>: it returns the indices 1 and 0, a different set, and the
  boxes 0 and 1 it keeps are the same square, with an IoU of 1.
\<close>

theorem pth_nms_paths_differ:
  "pth_nms False unsorted_dets 0.5 = [1, 2]
   \<and> pth_nms True unsorted_dets 0.5 = [1, 0]
   \<and> set (pth_nms True unsorted_dets 0.5) \<noteq> set (pth_nms False unsorted_dets 0.5)
   \<and> iou_exceeds (inclusive_intersection (unsorted_dets ! 1) (unsorted_dets ! 0))
        (det_area (unsorted_dets ! 1)) (det_area (unsorted_dets ! 0)) 0.5"
proof -
  have s: "pth_nms False unsorted_dets 0.5 = [1, 2]"
    by code_simp
  have a: "pth_nms True unsorted_dets 0.5 = [1, 0]"
    by code_simp
  have "set [1, 0 :: nat] \<noteq> set [1, 2]"
    by auto
  moreover have "iou_exceeds (inclusive_intersection (unsorted_dets ! 1) (unsorted_dets ! 0))
      (det_area (unsorted_dets ! 1)) (det_area (unsorted_dets ! 0)) 0.5"
    by (simp add: unsorted_dets_def inclusive_intersection_def det_area_def iou_exceeds_def Let_def)
  ultimately show ?thesis
    by (simp only: s a simp_thms)
qed

end
